theory Spec2Isabelle
  imports Main "HOL-Library.Word" "HOL-Library.Multiset"
begin

section \<open>The MatchUpGame contract: data model\<close>

text \<open>
  The contract is compiled with \<^verbatim>\<open>pragma solidity ^0.8.19\<close>: every \<^verbatim>\<open>+\<close>, \<^verbatim>\<open>*\<close> and
  \<^verbatim>\<open>++\<close> on a \<^verbatim>\<open>uint256\<close> is checked and aborts the call with a panic when the result
  does not fit into 256 bits. Integers are words of the source's width; the checked
  operations return \<open>None\<close> where the source panics.
\<close>

type_synonym uint256 = "256 word"
type_synonym uint8 = "8 word"
type_synonym address = "160 word"

datatype error =
    Revert string      \<comment> \<open>a failed \<^verbatim>\<open>require\<close>, with its reason string\<close>
  | Panic_overflow     \<comment> \<open>checked arithmetic left the range of \<^verbatim>\<open>uint256\<close>, up or down\<close>
  | Panic_index        \<comment> \<open>an array was read or written out of bounds\<close>

datatype event =
    UserRegistered address string
  | GameCompleted address uint256 bool uint8 uint256 uint256
  | DailyChallengeCompleted address uint256 uint8 uint256
  | DisplayNameUpdated address string

record User =
  displayName :: string
  totalPoints :: uint256
  gamesPlayed :: uint256
  gamesWon :: uint256
  bestTime :: uint256
  joinedAt :: uint256
  lastGameAt :: uint256
  exists :: bool

record GameResult =
  gameId :: uint256
  player :: address
  won :: bool
  difficulty :: uint8
  timeSpent :: uint256
  pointsEarned :: uint256
  timestamp :: uint256
  isDailyChallenge :: bool

text \<open>
  The fields of \<^verbatim>\<open>DailyChallenge\<close> carry the prefix \<open>dc_\<close>: two of them have the names of
  fields of \<^verbatim>\<open>GameResult\<close>.
\<close>

record DailyChallenge =
  dc_date :: uint256
  dc_difficulty :: uint8
  dc_completed :: bool
  dc_pointsEarned :: uint256
  dc_completedAt :: uint256

text \<open>
  A Solidity \<^verbatim>\<open>mapping\<close> is total: a key that was never written reads as the value
  whose fields are all zero. Mappings are therefore functions, and the fresh contract
  holds the zero value everywhere. Dynamic storage arrays are lists, and \<^verbatim>\<open>push\<close>
  appends; indices into lists and memory arrays are natural numbers. Gas is not modelled.
\<close>

record state =
  users :: "address \<Rightarrow> User"
  gameResults :: "uint256 \<Rightarrow> GameResult"
  dailyChallenges :: "address \<Rightarrow> uint256 \<Rightarrow> DailyChallenge"
  userGameIds :: "address \<Rightarrow> uint256 list"
  userAddresses :: "address list"
  totalGames :: uint256
  totalUsers :: uint256

text \<open>What a call sees of its transaction: \<^verbatim>\<open>msg.sender\<close> and \<^verbatim>\<open>block.timestamp\<close>.\<close>

record env =
  msg_sender :: address
  block_timestamp :: uint256

definition zero_User :: User where
  "zero_User = \<lparr>displayName = [], totalPoints = 0, gamesPlayed = 0, gamesWon = 0,
     bestTime = 0, joinedAt = 0, lastGameAt = 0, exists = False\<rparr>"

definition zero_GameResult :: GameResult where
  "zero_GameResult = \<lparr>gameId = 0, player = 0, won = False, difficulty = 0, timeSpent = 0,
     pointsEarned = 0, timestamp = 0, isDailyChallenge = False\<rparr>"

definition zero_DailyChallenge :: DailyChallenge where
  "zero_DailyChallenge = \<lparr>dc_date = 0, dc_difficulty = 0, dc_completed = False,
     dc_pointsEarned = 0, dc_completedAt = 0\<rparr>"

definition init_state :: state where
  "init_state = \<lparr>users = (\<lambda>_. zero_User), gameResults = (\<lambda>_. zero_GameResult),
     dailyChallenges = (\<lambda>_ _. zero_DailyChallenge), userGameIds = (\<lambda>_. []),
     userAddresses = [], totalGames = 0, totalUsers = 0\<rparr>"

definition EASY_POINTS :: uint256 where "EASY_POINTS = 50"
definition MEDIUM_POINTS :: uint256 where "MEDIUM_POINTS = 100"
definition HARD_POINTS :: uint256 where "HARD_POINTS = 150"
definition DAILY_MULTIPLIER :: uint256 where "DAILY_MULTIPLIER = 2"

subsection \<open>Checked arithmetic and transactions\<close>

definition checked_add :: "uint256 \<Rightarrow> uint256 \<Rightarrow> uint256 option" where
  "checked_add a b = (if unat a + unat b < 2 ^ 256 then Some (a + b) else None)"

definition checked_mul :: "uint256 \<Rightarrow> uint256 \<Rightarrow> uint256 option" where
  "checked_mul a b = (if unat a * unat b < 2 ^ 256 then Some (a * b) else None)"

text \<open>
  The body of a state-changing function returns its outcome together with the storage as
  it stands when the body stops: after an abort that is the storage with every write made
  before the abort. The EVM then discards those writes: \<open>transact\<close> is the external call,
  which keeps the new storage on success and the old one on failure.
\<close>

definition transact :: "(state \<Rightarrow> (error + 'a) \<times> state) \<Rightarrow> state \<Rightarrow> (error + 'a) \<times> state" where
  "transact body s =
     (case body s of
        (Inl err, _) \<Rightarrow> (Inl err, s)
      | (Inr v, s') \<Rightarrow> (Inr v, s'))"

section \<open>Operations\<close>

subsection \<open>registerUser\<close>

definition registerUser_body :: "env \<Rightarrow> string \<Rightarrow> state \<Rightarrow> (error + event list) \<times> state" where
  "registerUser_body e displayName' s =
     (if \<not> length displayName' > 0 then (Inl (Revert ''Display name cannot be empty''), s)
      else if \<not> length displayName' \<le> 50 then (Inl (Revert ''Display name too long''), s)
      else if \<not> exists (users s (msg_sender e)) then
        (let s1 = s\<lparr>users := (users s)(msg_sender e :=
                      \<lparr>displayName = displayName', totalPoints = 0, gamesPlayed = 0,
                       gamesWon = 0, bestTime = 0, joinedAt = block_timestamp e,
                       lastGameAt = 0, exists = True\<rparr>)\<rparr>;
             s2 = s1\<lparr>userAddresses := userAddresses s1 @ [msg_sender e]\<rparr>
         in case checked_add (totalUsers s2) 1 of
              None \<Rightarrow> (Inl Panic_overflow, s2)
            | Some n \<Rightarrow> (Inr [UserRegistered (msg_sender e) displayName'], s2\<lparr>totalUsers := n\<rparr>))
      else
        (Inr [DisplayNameUpdated (msg_sender e) displayName'],
         s\<lparr>users := (users s)(msg_sender e :=
               (users s (msg_sender e))\<lparr>displayName := displayName'\<rparr>)\<rparr>))"

definition registerUser :: "env \<Rightarrow> string \<Rightarrow> state \<Rightarrow> (error + event list) \<times> state" where
  "registerUser e displayName' = transact (registerUser_body e displayName')"

subsection \<open>getCurrentDate\<close>

text \<open>
  No operation of \<^verbatim>\<open>getCurrentDate\<close> can overflow: the month is at most 12 and the day at
  most 30, so the result is below 20241231.
\<close>

definition getCurrentDate :: "env \<Rightarrow> uint256" where
  "getCurrentDate e =
     (let daysSinceEpoch = block_timestamp e div 86400;
          year = 2024;
          dayOfYear = daysSinceEpoch mod 365;
          month = (dayOfYear div 30) + 1;
          day = (dayOfYear mod 30) + 1;
          month = (if month > 12 then 12 else month);
          day = (if day > 31 then 31 else day)
      in year * 10000 + month * 100 + day)"

subsection \<open>recordGame\<close>

text \<open>Lines 118 to 127: the points of a game. \<open>None\<close> is the panic of \<^verbatim>\<open>points *= 2\<close>.\<close>

definition calcPoints :: "bool \<Rightarrow> uint8 \<Rightarrow> bool \<Rightarrow> uint256 option" where
  "calcPoints won' difficulty' isDailyChallenge' =
     (if won' then
        (let points = (if difficulty' = 0 then EASY_POINTS
                       else if difficulty' = 1 then MEDIUM_POINTS
                       else HARD_POINTS)
         in if isDailyChallenge' then checked_mul points DAILY_MULTIPLIER else Some points)
      else Some 0)"

text \<open>
  Lines 130 to 142: the statistics of the caller, written field by field through the
  storage pointer \<^verbatim>\<open>user\<close>.
\<close>

definition set_user :: "address \<Rightarrow> User \<Rightarrow> state \<Rightarrow> state" where
  "set_user a u s = s\<lparr>users := (users s)(a := u)\<rparr>"

definition updateStats :: "env \<Rightarrow> bool \<Rightarrow> uint256 \<Rightarrow> uint256 \<Rightarrow> state \<Rightarrow> (error + unit) \<times> state" where
  "updateStats e won' timeSpent' points s =
     (let a = msg_sender e in
      case checked_add (gamesPlayed (users s a)) 1 of
        None \<Rightarrow> (Inl Panic_overflow, s)
      | Some gp \<Rightarrow>
         (let s1 = set_user a ((users s a)\<lparr>gamesPlayed := gp\<rparr>) s;
              s2 = set_user a ((users s1 a)\<lparr>lastGameAt := block_timestamp e\<rparr>) s1
          in if won' then
               (case checked_add (gamesWon (users s2 a)) 1 of
                  None \<Rightarrow> (Inl Panic_overflow, s2)
                | Some gw \<Rightarrow>
                   (let s3 = set_user a ((users s2 a)\<lparr>gamesWon := gw\<rparr>) s2 in
                    case checked_add (totalPoints (users s3 a)) points of
                      None \<Rightarrow> (Inl Panic_overflow, s3)
                    | Some tp \<Rightarrow>
                       (let s4 = set_user a ((users s3 a)\<lparr>totalPoints := tp\<rparr>) s3 in
                        if timeSpent' > 0 \<and>
                           (bestTime (users s4 a) = 0 \<or> timeSpent' < bestTime (users s4 a))
                        then (Inr (), set_user a ((users s4 a)\<lparr>bestTime := timeSpent'\<rparr>) s4)
                        else (Inr (), s4))))
             else (Inr (), s2)))"

text \<open>
  Lines 144 to 172. \<^verbatim>\<open>userGameIds[msg.sender].push\<close> appends to the caller's list of game
  ids.
\<close>

definition storeResult :: "env \<Rightarrow> bool \<Rightarrow> uint8 \<Rightarrow> uint256 \<Rightarrow> bool \<Rightarrow> uint256 \<Rightarrow> state \<Rightarrow> state" where
  "storeResult e won' difficulty' timeSpent' isDailyChallenge' points s =
     (let gameResult = \<lparr>gameId = totalGames s, player = msg_sender e, won = won',
                         difficulty = difficulty',
                         timeSpent = (if won' then timeSpent' else 0),
                         pointsEarned = points, timestamp = block_timestamp e,
                         isDailyChallenge = isDailyChallenge'\<rparr>;
          s1 = s\<lparr>gameResults := (gameResults s)(totalGames s := gameResult)\<rparr>
      in s1\<lparr>userGameIds := (userGameIds s1)(msg_sender e :=
                userGameIds s1 (msg_sender e) @ [totalGames s1])\<rparr>)"

definition dailyCompletion :: "env \<Rightarrow> bool \<Rightarrow> uint8 \<Rightarrow> bool \<Rightarrow> uint256 \<Rightarrow> state \<Rightarrow> event list \<times> state" where
  "dailyCompletion e won' difficulty' isDailyChallenge' points s =
     (if won' \<and> isDailyChallenge' then
        (let today = getCurrentDate e;
             dc = \<lparr>dc_date = today, dc_difficulty = difficulty', dc_completed = True,
                   dc_pointsEarned = points, dc_completedAt = block_timestamp e\<rparr>
         in ([DailyChallengeCompleted (msg_sender e) today difficulty' points],
             s\<lparr>dailyChallenges := (dailyChallenges s)(msg_sender e :=
                  (dailyChallenges s (msg_sender e))(today := dc))\<rparr>))
      else ([], s))"

definition recordGame_body ::
  "env \<Rightarrow> bool \<Rightarrow> uint8 \<Rightarrow> uint256 \<Rightarrow> bool \<Rightarrow> state \<Rightarrow> (error + event list) \<times> state" where
  "recordGame_body e won' difficulty' timeSpent' isDailyChallenge' s =
     (if \<not> exists (users s (msg_sender e)) then (Inl (Revert ''User not registered''), s)
      else if \<not> difficulty' \<le> 2 then (Inl (Revert ''Invalid difficulty level''), s)
      else case checked_add (totalGames s) 1 of
        None \<Rightarrow> (Inl Panic_overflow, s)
      | Some tg \<Rightarrow>
         (let s1 = s\<lparr>totalGames := tg\<rparr> in
          case calcPoints won' difficulty' isDailyChallenge' of
            None \<Rightarrow> (Inl Panic_overflow, s1)
          | Some points \<Rightarrow>
             (case updateStats e won' timeSpent' points s1 of
                (Inl err, s2) \<Rightarrow> (Inl err, s2)
              | (Inr _, s2) \<Rightarrow>
                 (let s3 = storeResult e won' difficulty' timeSpent' isDailyChallenge' points s2;
                      (evs, s4) = dailyCompletion e won' difficulty' isDailyChallenge' points s3
                  in (Inr (evs @ [GameCompleted (msg_sender e) (totalGames s4) won' difficulty'
                                    timeSpent' points]), s4)))))"

definition recordGame ::
  "env \<Rightarrow> bool \<Rightarrow> uint8 \<Rightarrow> uint256 \<Rightarrow> bool \<Rightarrow> state \<Rightarrow> (error + event list) \<times> state" where
  "recordGame e won' difficulty' timeSpent' isDailyChallenge' =
     transact (recordGame_body e won' difficulty' timeSpent' isDailyChallenge')"

subsection \<open>Views\<close>

definition getUser :: "state \<Rightarrow> address \<Rightarrow> User" where
  "getUser s user' = users s user'"

text \<open>
  The loop of \<^verbatim>\<open>getUserGames\<close>, lines 202 to 204. Reading \<^verbatim>\<open>gameIds[i]\<close> or writing
  \<^verbatim>\<open>results[i - _offset]\<close> out of bounds would panic, and so would the checked
  subtraction below zero, here and in \<^verbatim>\<open>end - _offset\<close>.
\<close>

function getUserGames_loop ::
  "state \<Rightarrow> uint256 list \<Rightarrow> nat \<Rightarrow> nat \<Rightarrow> nat \<Rightarrow> GameResult list \<Rightarrow> error + GameResult list" where
  "getUserGames_loop s gameIds offset endi i results =
     (if i < endi then
        (if \<not> i < length gameIds then Inl Panic_index
         else if \<not> offset \<le> i then Inl Panic_overflow
         else if \<not> i - offset < length results then Inl Panic_index
         else getUserGames_loop s gameIds offset endi (Suc i)
                (results[i - offset := gameResults s (gameIds ! i)]))
      else Inr results)"
  by pat_completeness auto
termination
  by (relation "measure (\<lambda>(s, gameIds, offset, endi, i, results). endi - i)") auto

definition getUserGames :: "state \<Rightarrow> address \<Rightarrow> uint256 \<Rightarrow> uint256 \<Rightarrow> error + GameResult list" where
  "getUserGames s user' offset limit =
     (let gameIds = userGameIds s user' in
      if \<not> unat offset < length gameIds then Inl (Revert ''Offset out of bounds'')
      else case checked_add offset limit of
        None \<Rightarrow> Inl Panic_overflow
      | Some e \<Rightarrow>
         (let endi = (if unat e > length gameIds then length gameIds else unat e) in
          if endi < unat offset then Inl Panic_overflow
          else
            (let results = replicate (endi - unat offset) zero_GameResult
             in getUserGames_loop s gameIds (unat offset) endi (unat offset) results)))"

text \<open>
  The inner \<^verbatim>\<open>while\<close> of \<^verbatim>\<open>getLeaderboard\<close>, lines 230 to 236: it moves the entries
  with fewer points than \<open>currentPoints\<close> one place down and returns the final \<open>j\<close>.
  \<open>len\<close> is the local \<^verbatim>\<open>length\<close>, the size of both memory arrays.
\<close>

function leaderboard_shift ::
  "uint256 \<Rightarrow> nat \<Rightarrow> nat \<Rightarrow> address list \<Rightarrow> uint256 list
     \<Rightarrow> error + nat \<times> address list \<times> uint256 list" where
  "leaderboard_shift currentPoints len j topUsers topPoints =
     (if j > 0 then
        (if \<not> j - 1 < length topPoints then Inl Panic_index
         else if currentPoints > topPoints ! (j - 1) then
           (if j < len then
              leaderboard_shift currentPoints len (j - 1)
                (topUsers[j := topUsers ! (j - 1)]) (topPoints[j := topPoints ! (j - 1)])
            else leaderboard_shift currentPoints len (j - 1) topUsers topPoints)
         else Inr (j, topUsers, topPoints))
      else Inr (j, topUsers, topPoints))"
  by pat_completeness auto
termination
  by (relation "measure (\<lambda>(currentPoints, len, j, topUsers, topPoints). j)") auto

text \<open>The outer \<^verbatim>\<open>for\<close> of \<^verbatim>\<open>getLeaderboard\<close>, lines 225 to 242.\<close>

function leaderboard_loop ::
  "state \<Rightarrow> nat \<Rightarrow> nat \<Rightarrow> nat \<Rightarrow> address list \<Rightarrow> uint256 list
     \<Rightarrow> error + address list \<times> uint256 list" where
  "leaderboard_loop s limit len i topUsers topPoints =
     (if i < length (userAddresses s) \<and> i < limit then
        (let currentUser = userAddresses s ! i;
             currentPoints = totalPoints (users s currentUser)
         in case leaderboard_shift currentPoints len i topUsers topPoints of
              Inl err \<Rightarrow> Inl err
            | Inr (j, topUsers1, topPoints1) \<Rightarrow>
               (if j < len then
                  leaderboard_loop s limit len (Suc i)
                    (topUsers1[j := currentUser]) (topPoints1[j := currentPoints])
                else leaderboard_loop s limit len (Suc i) topUsers1 topPoints1))
      else Inr (topUsers, topPoints))"
  by pat_completeness auto
termination
  by (relation "measure (\<lambda>(s, limit, len, i, topUsers, topPoints). min (length (userAddresses s)) limit - i)")
     auto

definition getLeaderboard :: "state \<Rightarrow> uint256 \<Rightarrow> error + address list \<times> uint256 list" where
  "getLeaderboard s limit =
     (if \<not> (limit > 0 \<and> limit \<le> 100) then Inl (Revert ''Invalid limit'')
      else
        (let len = unat (if totalUsers s < limit then totalUsers s else limit);
             topUsers = replicate len 0;
             topPoints = replicate len 0
         in leaderboard_loop s (unat limit) len 0 topUsers topPoints))"

definition isDailyChallengeCompleted :: "state \<Rightarrow> address \<Rightarrow> uint256 \<Rightarrow> bool" where
  "isDailyChallengeCompleted s user' date' = dc_completed (dailyChallenges s user' date')"

definition getTotalUsers :: "state \<Rightarrow> uint256" where
  "getTotalUsers s = totalUsers s"

definition getTotalGames :: "state \<Rightarrow> uint256" where
  "getTotalGames s = totalGames s"

text \<open>
  The loop of \<^verbatim>\<open>getUserRank\<close>, lines 308 to 312, over the elements of
  \<^verbatim>\<open>userAddresses\<close> in order; \<^verbatim>\<open>rank++\<close> is checked.
\<close>

fun getUserRank_loop :: "state \<Rightarrow> address \<Rightarrow> uint256 \<Rightarrow> address list \<Rightarrow> uint256 \<Rightarrow> error + uint256" where
  "getUserRank_loop s user' userPoints [] rank = Inr rank"
| "getUserRank_loop s user' userPoints (a # as) rank =
     (if a \<noteq> user' \<and> totalPoints (users s a) > userPoints then
        (case checked_add rank 1 of
           None \<Rightarrow> Inl Panic_overflow
         | Some rank' \<Rightarrow> getUserRank_loop s user' userPoints as rank')
      else getUserRank_loop s user' userPoints as rank)"

definition getUserRank :: "state \<Rightarrow> address \<Rightarrow> error + uint256" where
  "getUserRank s user' =
     (if \<not> exists (users s user') then Inr 0
      else
        (let userPoints = totalPoints (users s user');
             rank = 1
         in getUserRank_loop s user' userPoints (userAddresses s) rank))"

subsection \<open>Sequences of calls\<close>

text \<open>
  The two state-changing entry points, as calls with their transaction environment. A
  call that fails leaves the storage as it was, so \<open>run\<close> gives the storage after a whole
  sequence of calls, whatever their outcomes.
\<close>

datatype call =
    Register env string
  | RecordGame env bool uint8 uint256 bool

fun apply_call :: "state \<Rightarrow> call \<Rightarrow> state" where
  "apply_call s (Register e displayName') = snd (registerUser e displayName' s)"
| "apply_call s (RecordGame e won' difficulty' timeSpent' isDailyChallenge') =
     snd (recordGame e won' difficulty' timeSpent' isDailyChallenge' s)"

definition run :: "state \<Rightarrow> call list \<Rightarrow> state" where
  "run s cs = foldl apply_call s cs"

fun is_RecordGame :: "call \<Rightarrow> bool" where
  "is_RecordGame (RecordGame e won' difficulty' timeSpent' isDailyChallenge') = True"
| "is_RecordGame (Register e displayName') = False"

text \<open>A recorded game that cannot set a best time: a loss, or a win in zero seconds.\<close>

fun no_time :: "call \<Rightarrow> bool" where
  "no_time (RecordGame e won' difficulty' timeSpent' isDailyChallenge') =
     (\<not> won' \<or> timeSpent' = 0)"
| "no_time (Register e displayName') = False"

subsection \<open>Sample transactions\<close>

definition env_at :: "address \<Rightarrow> uint256 \<Rightarrow> env" where
  "env_at a t = \<lparr>msg_sender = a, block_timestamp = t\<rparr>"

text \<open>
  Two players register, then the second one wins an easy game in 30 seconds: the player
  registered first has 0 points, the other 50.
\<close>

definition two_players :: "call list" where
  "two_players =
     [Register (env_at 1 1000) ''Alice'', Register (env_at 2 2000) ''Bob'',
      RecordGame (env_at 2 3000) True 0 30 False]"

text \<open>Two players register and nobody plays: both have 0 points.\<close>

definition two_registered :: "call list" where
  "two_registered = [Register (env_at 1 1000) ''Alice'', Register (env_at 2 2000) ''Bob'']"

text \<open>One player registers and records two games, a win and a loss.\<close>

definition two_games :: "call list" where
  "two_games =
     [Register (env_at 1 1000) ''Alice'', RecordGame (env_at 1 2000) True 2 30 True,
      RecordGame (env_at 1 3000) False 0 999 False]"

text \<open>
  Games of the second player after \<open>two_players\<close>, whose best time is 30 by then: two
  that cannot set a best time, and two faster wins.
\<close>

definition slow_games :: "call list" where
  "slow_games =
     [RecordGame (env_at 2 5000) False 0 999 False, RecordGame (env_at 2 6000) True 0 0 False]"

definition fast_games :: "call list" where
  "fast_games =
     [RecordGame (env_at 2 5000) True 0 20 False, RecordGame (env_at 2 6000) True 1 25 False]"

subsection \<open>The ranking as the specification words it\<close>

text \<open>
  Not taken from the source: the specification's ``stable insertion sort, descending, ties
  keep the earlier-registered identity ahead'', on a list of identities paired with their
  points. \<open>insert_desc\<close> puts an entry in front of the first entry with strictly fewer
  points; \<open>sort_desc\<close> inserts the entries one after the other.
\<close>

fun insert_desc ::
  "address \<times> uint256 \<Rightarrow> (address \<times> uint256) list \<Rightarrow> (address \<times> uint256) list" where
  "insert_desc x [] = [x]"
| "insert_desc x (y # ys) = (if snd y < snd x then x # y # ys else y # insert_desc x ys)"

definition sort_desc :: "(address \<times> uint256) list \<Rightarrow> (address \<times> uint256) list" where
  "sort_desc xs = foldl (\<lambda>acc x. insert_desc x acc) [] xs"

subsection \<open>Notions used in the proofs\<close>

text \<open>
  The record that a successful \<^verbatim>\<open>recordGame\<close> leaves for its caller, and the points it
  awards, in closed form.
\<close>

definition played :: "env \<Rightarrow> bool \<Rightarrow> uint256 \<Rightarrow> uint256 \<Rightarrow> User \<Rightarrow> User" where
  "played e w t pts u =
     u\<lparr>gamesPlayed := gamesPlayed u + 1, lastGameAt := block_timestamp e,
       gamesWon := (if w then gamesWon u + 1 else gamesWon u),
       totalPoints := (if w then totalPoints u + pts else totalPoints u),
       bestTime := (if w \<and> t > 0 \<and> (bestTime u = 0 \<or> t < bestTime u) then t else bestTime u)\<rparr>"

definition points_of :: "bool \<Rightarrow> uint8 \<Rightarrow> bool \<Rightarrow> uint256" where
  "points_of w d daily =
     (if w then (if d = 0 then 50 else if d = 1 then 100 else 150) * (if daily then 2 else 1)
      else 0)"

text \<open>
  The invariant of the registry: the address list has no duplicates, holds exactly the
  identities whose record exists, and is counted by \<^verbatim>\<open>totalUsers\<close>; a record that does
  not exist is the zero record; nobody has won more games than played.
\<close>

definition inv_registry :: "state \<Rightarrow> bool" where
  "inv_registry s \<longleftrightarrow>
     distinct (userAddresses s) \<and>
     set (userAddresses s) = {a. exists (users s a)} \<and>
     length (userAddresses s) = unat (totalUsers s) \<and>
     (\<forall>a. \<not> exists (users s a) \<longrightarrow> users s a = zero_User) \<and>
     (\<forall>a. gamesWon (users s a) \<le> gamesPlayed (users s a))"

section \<open>Basic facts\<close>

text \<open>
  The recursive equations of the loops are unfolded by hand in the proofs and by the
  simplifier only on concrete inputs.
\<close>

declare getUserGames_loop.simps [simp del] leaderboard_shift.simps [simp del]
  leaderboard_loop.simps [simp del]

lemma checked_add_Some: "checked_add a b = Some c \<longleftrightarrow> unat a + unat b < 2 ^ 256 \<and> c = a + b"
  by (auto simp: checked_add_def)

lemma checked_add_None: "checked_add a b = None \<longleftrightarrow> \<not> unat a + unat b < 2 ^ 256"
  by (auto simp: checked_add_def)

lemma unat_add_no_wrap: "unat (a::uint256) + unat b < 2 ^ 256 \<Longrightarrow> unat (a + b) = unat a + unat b"
  using unat_add_lem [of a b] by simp

lemma transact_Inr: "transact body s = (Inr v, s') \<longleftrightarrow> body s = (Inr v, s')"
  by (auto simp: transact_def split: prod.splits sum.splits)

lemma transact_Inl: "transact body s = (Inl err, s') \<longleftrightarrow> (\<exists>s''. body s = (Inl err, s'')) \<and> s' = s"
  by (auto simp: transact_def split: prod.splits sum.splits)

text \<open>The doubling of the points never panics: the points are at most 300.\<close>

lemma calcPoints_Some:
  "calcPoints w d daily =
     Some (if w then (if d = 0 then 50 else if d = 1 then 100 else 150) * (if daily then 2 else 1)
           else 0)"
  by (simp add: calcPoints_def checked_mul_def EASY_POINTS_def MEDIUM_POINTS_def
      HARD_POINTS_def DAILY_MULTIPLIER_def)

lemma updateStats_Inr:
  assumes "updateStats e w t pts s = (Inr v, s')"
  shows "s' = s\<lparr>users := (users s)(msg_sender e := played e w t pts (users s (msg_sender e)))\<rparr>"
    and "unat (gamesPlayed (users s (msg_sender e))) + 1 < 2 ^ 256"
    and "w \<Longrightarrow> unat (gamesWon (users s (msg_sender e))) + 1 < 2 ^ 256"
    and "w \<Longrightarrow> unat (totalPoints (users s (msg_sender e))) + unat pts < 2 ^ 256"
  using assms
  by (auto simp: updateStats_def set_user_def played_def Let_def checked_add_Some
      split: option.splits if_splits)

lemma calcPoints_points_of: "calcPoints w d daily = Some (points_of w d daily)"
  by (simp add: calcPoints_Some points_of_def)

lemma recordGame_body_Inr:
  assumes "recordGame_body e w d t daily s = (Inr evs, s')"
  shows "exists (users s (msg_sender e))" and "d \<le> 2"
    and "unat (totalGames s) + 1 < 2 ^ 256"
    and "users s' = (users s)(msg_sender e :=
           played e w t (points_of w d daily) (users s (msg_sender e)))"
    and "totalGames s' = totalGames s + 1"
    and "userAddresses s' = userAddresses s"
    and "totalUsers s' = totalUsers s"
    and "gameResults s' = (gameResults s)(totalGames s + 1 :=
           \<lparr>gameId = totalGames s + 1, player = msg_sender e, won = w, difficulty = d,
            timeSpent = (if w then t else 0), pointsEarned = points_of w d daily,
            timestamp = block_timestamp e, isDailyChallenge = daily\<rparr>)"
    and "userGameIds s' = (userGameIds s)(msg_sender e :=
           userGameIds s (msg_sender e) @ [totalGames s + 1])"
  using assms
  by (auto simp: recordGame_body_def calcPoints_points_of checked_add_Some Let_def
      storeResult_def dailyCompletion_def
      split: if_splits option.splits prod.splits sum.splits dest!: updateStats_Inr(1))

lemma recordGame_Inr:
  "recordGame e w d t daily s = (Inr evs, s') \<longleftrightarrow> recordGame_body e w d t daily s = (Inr evs, s')"
  by (simp add: recordGame_def transact_Inr)

lemma recordGame_Inl:
  "recordGame e w d t daily s = (Inl err, s') \<Longrightarrow> s' = s"
  by (simp add: recordGame_def transact_Inl)

lemma registerUser_Inl:
  "registerUser e n s = (Inl err, s') \<Longrightarrow> s' = s"
  by (simp add: registerUser_def transact_Inl)

lemma registerUser_Inr:
  "registerUser e n s = (Inr evs, s') \<longleftrightarrow> registerUser_body e n s = (Inr evs, s')"
  by (simp add: registerUser_def transact_Inr)

lemma registerUser_body_Inr:
  assumes "registerUser_body e n s = (Inr evs, s')"
  shows "0 < length n \<and> length n \<le> 50"
    and "exists (users s (msg_sender e)) \<Longrightarrow>
           s' = s\<lparr>users := (users s)(msg_sender e := (users s (msg_sender e))\<lparr>displayName := n\<rparr>)\<rparr>
           \<and> evs = [DisplayNameUpdated (msg_sender e) n]"
    and "\<not> exists (users s (msg_sender e)) \<Longrightarrow>
           s' = s\<lparr>users := (users s)(msg_sender e :=
                    \<lparr>displayName = n, totalPoints = 0, gamesPlayed = 0, gamesWon = 0,
                     bestTime = 0, joinedAt = block_timestamp e, lastGameAt = 0, exists = True\<rparr>),
                  userAddresses := userAddresses s @ [msg_sender e],
                  totalUsers := totalUsers s + 1\<rparr>
           \<and> unat (totalUsers s) + 1 < 2 ^ 256
           \<and> evs = [UserRegistered (msg_sender e) n]"
  using assms
  by (auto simp: registerUser_body_def checked_add_Some Let_def split: if_splits option.splits)

subsection \<open>The registry invariant\<close>

lemma inv_init: "inv_registry init_state"
  by (simp add: inv_registry_def init_state_def zero_User_def)

lemma played_exists [simp]: "exists (played e w t pts u) = exists u"
  by (simp add: played_def)

lemma inv_registerUser:
  assumes "inv_registry s" shows "inv_registry (snd (registerUser e n s))"
proof (cases "registerUser e n s")
  case (Pair r s')
  show ?thesis
  proof (cases r)
    case (Inl err)
    with Pair assms show ?thesis by (auto dest: registerUser_Inl)
  next
    case (Inr evs)
    with Pair have b: "registerUser_body e n s = (Inr evs, s')" by (simp add: registerUser_Inr)
    show ?thesis
    proof (cases "exists (users s (msg_sender e))")
      case True
      from registerUser_body_Inr(2) [OF b True] True assms Pair show ?thesis
        by (auto simp: inv_registry_def)
    next
      case False
      from registerUser_body_Inr(3) [OF b False] False assms Pair show ?thesis
        by (auto simp: inv_registry_def unat_add_no_wrap)
    qed
  qed
qed

lemma played_won_le:
  assumes "gamesWon u \<le> gamesPlayed u" and "unat (gamesPlayed u) + 1 < 2 ^ 256"
  shows "gamesWon (played e w t pts u) \<le> gamesPlayed (played e w t pts u)"
proof -
  from assms have "unat (gamesWon u) + 1 < 2 ^ 256" by (simp add: word_le_nat_alt)
  with assms show ?thesis
    by (simp add: played_def word_le_nat_alt unat_add_no_wrap)
qed

lemma inv_recordGame:
  assumes "inv_registry s" shows "inv_registry (snd (recordGame e w d t daily s))"
proof (cases "recordGame e w d t daily s")
  case (Pair r s')
  show ?thesis
  proof (cases r)
    case (Inl err)
    with Pair assms show ?thesis by (auto dest: recordGame_Inl)
  next
    case (Inr evs)
    with Pair have b: "recordGame_body e w d t daily s = (Inr evs, s')" by (simp add: recordGame_Inr)
    note f = recordGame_body_Inr [OF b]
    have "unat (gamesPlayed (users s (msg_sender e))) + 1 < 2 ^ 256"
      using b by (auto simp: recordGame_body_def calcPoints_points_of Let_def
          split: if_splits option.splits prod.splits sum.splits dest: updateStats_Inr(2))
    with assms have "gamesWon (played e w t (points_of w d daily) (users s (msg_sender e)))
        \<le> gamesPlayed (played e w t (points_of w d daily) (users s (msg_sender e)))"
      by (intro played_won_le) (simp_all add: inv_registry_def)
    with assms f(1) show ?thesis
      by (auto simp: inv_registry_def Pair f(4,6,7))
  qed
qed

lemma inv_apply_call: "inv_registry s \<Longrightarrow> inv_registry (apply_call s c)"
  by (cases c) (simp_all add: inv_registerUser inv_recordGame)

lemma inv_run: "inv_registry s \<Longrightarrow> inv_registry (run s cs)"
  unfolding run_def by (induction cs arbitrary: s) (simp_all add: inv_apply_call)

lemma inv_reachable: "inv_registry (run init_state cs)"
  by (rule inv_run [OF inv_init])

lemmas exec_simps = run_def registerUser_def recordGame_def transact_def registerUser_body_def
  recordGame_body_def init_state_def zero_User_def checked_add_def calcPoints_points_of
  points_of_def updateStats_def set_user_def storeResult_def dailyCompletion_def Let_def
  env_at_def

section \<open>The claims\<close>

subsection \<open>C8: games won never exceed games played\<close>

text \<open>
  C8. After every sequence of \<^verbatim>\<open>registerUser\<close> and \<^verbatim>\<open>recordGame\<close> calls applied to
  the fresh contract, successful or not, the record of every identity has
  \<open>gamesWon \<le> gamesPlayed\<close>. Every prefix of a sequence is a sequence, so this holds after
  each call.
\<close>

theorem gamesWon_le_gamesPlayed:
  "gamesWon (users (run init_state cs) a) \<le> gamesPlayed (users (run init_state cs) a)"
  using inv_reachable [of cs] by (simp add: inv_registry_def)

subsection \<open>C10: getUser is total\<close>

text \<open>
  C10. \<^verbatim>\<open>getUser\<close> is a view without \<^verbatim>\<open>require\<close> and without arithmetic: it cannot
  fail and cannot write, which its type says (it returns a \<open>User\<close>, neither an error nor
  a state). In every state of the contract it returns the stored record; the record's
  existence flag tells whether the identity is registered, and for an identity that is
  not registered the record has the flag false and every other field zero or empty.
\<close>

theorem getUser_total:
  "getUser (run init_state cs) a = users (run init_state cs) a
   \<and> (exists (getUser (run init_state cs) a) \<longleftrightarrow> a \<in> set (userAddresses (run init_state cs)))
   \<and> (\<not> exists (getUser (run init_state cs) a) \<longrightarrow>
        getUser (run init_state cs) a =
          \<lparr>displayName = [], totalPoints = 0, gamesPlayed = 0, gamesWon = 0, bestTime = 0,
           joinedAt = 0, lastGameAt = 0, exists = False\<rparr>)"
  using inv_reachable [of cs] by (auto simp: inv_registry_def getUser_def zero_User_def)

theorem getUser_total_witness:
  "\<not> exists (getUser (run init_state [Register (env_at 1 1000) ''Alice'']) 2)
   \<and> getUser (run init_state [Register (env_at 1 1000) ''Alice'']) 2 =
          \<lparr>displayName = [], totalPoints = 0, gamesPlayed = 0, gamesWon = 0, bestTime = 0,
           joinedAt = 0, lastGameAt = 0, exists = False\<rparr>
   \<and> exists (getUser (run init_state [Register (env_at 1 1000) ''Alice'']) 1)"
proof -
  have h: "\<not> exists (getUser (run init_state [Register (env_at 1 1000) ''Alice'']) 2)"
    by (simp add: exec_simps getUser_def)
  have k: "exists (getUser (run init_state [Register (env_at 1 1000) ''Alice'']) 1)"
    by (simp add: exec_simps getUser_def)
  from getUser_total [of "[Register (env_at 1 1000) ''Alice'']" 2] h k
  show ?thesis by blast
qed

subsection \<open>C7: registering again only renames\<close>

text \<open>
  C7. In every state where the caller is already registered, a successful
  \<^verbatim>\<open>registerUser\<close> leaves \<^verbatim>\<open>totalUsers\<close> and the address list unchanged, changes
  nothing in the caller's record but the display name, leaves every other record as it
  was (the new state is the old one with that one field replaced), and emits
  \<^verbatim>\<open>DisplayNameUpdated\<close>.
\<close>

theorem registerUser_again:
  assumes "exists (users s (msg_sender e))"
    and "registerUser e n s = (Inr evs, s')"
  shows "totalUsers s' = totalUsers s
    \<and> userAddresses s' = userAddresses s
    \<and> users s' (msg_sender e) = (users s (msg_sender e))\<lparr>displayName := n\<rparr>
    \<and> (\<forall>b. b \<noteq> msg_sender e \<longrightarrow> users s' b = users s b)
    \<and> s' = s\<lparr>users := (users s)(msg_sender e := (users s (msg_sender e))\<lparr>displayName := n\<rparr>)\<rparr>
    \<and> evs = [DisplayNameUpdated (msg_sender e) n]"
proof -
  from assms(2) have "registerUser_body e n s = (Inr evs, s')" by (simp add: registerUser_Inr)
  from registerUser_body_Inr(2) [OF this assms(1)] show ?thesis by simp
qed

theorem registerUser_again_witness:
  "exists (users (run init_state two_players) 2)
   \<and> fst (registerUser (env_at 2 4000) ''Bobby'' (run init_state two_players))
       = Inr [DisplayNameUpdated 2 ''Bobby'']
   \<and> totalUsers (snd (registerUser (env_at 2 4000) ''Bobby'' (run init_state two_players))) = 2
   \<and> users (snd (registerUser (env_at 2 4000) ''Bobby'' (run init_state two_players))) 2
       = \<lparr>displayName = ''Bobby'', totalPoints = 50, gamesPlayed = 1, gamesWon = 1,
          bestTime = 30, joinedAt = 2000, lastGameAt = 3000, exists = True\<rparr>"
proof -
  have h1: "exists (users (run init_state two_players) (msg_sender (env_at 2 4000)))"
    by (simp add: exec_simps two_players_def)
  have h2: "registerUser (env_at 2 4000) ''Bobby'' (run init_state two_players) =
      (Inr [DisplayNameUpdated 2 ''Bobby''],
       snd (registerUser (env_at 2 4000) ''Bobby'' (run init_state two_players)))"
    by (simp add: exec_simps two_players_def)
  have h3: "users (run init_state two_players) 2 =
      \<lparr>displayName = ''Bob'', totalPoints = 50, gamesPlayed = 1, gamesWon = 1,
       bestTime = 30, joinedAt = 2000, lastGameAt = 3000, exists = True\<rparr>"
    by (simp add: exec_simps two_players_def)
  have h4: "totalUsers (run init_state two_players) = 2"
    by (simp add: exec_simps two_players_def)
  from registerUser_again [OF h1 h2] h1 h2 h3 h4 show ?thesis
    by (simp add: env_at_def)
qed

subsection \<open>C3: the persisted game result\<close>

text \<open>
  C3. After every successful \<^verbatim>\<open>recordGame\<close> the difficulty is 0 (Easy), 1 (Medium) or
  2 (Hard), and the \<^verbatim>\<open>GameResult\<close> stored under the new game id, which is appended to the
  caller's list of game ids, has: for a loss 0 points and 0 seconds whatever time was
  passed in; for a win 50, 100 or 150 points by difficulty, doubled for a daily
  challenge, and the time that was passed in.
\<close>

theorem recordGame_result:
  assumes "recordGame e w d t daily s = (Inr evs, s')"
  shows "d \<le> 2
    \<and> pointsEarned (gameResults s' (totalGames s')) =
        (if w then (if d = 0 then 50 else if d = 1 then 100 else 150) * (if daily then 2 else 1)
         else 0)
    \<and> timeSpent (gameResults s' (totalGames s')) = (if w then t else 0)
    \<and> gameId (gameResults s' (totalGames s')) = totalGames s'
    \<and> player (gameResults s' (totalGames s')) = msg_sender e
    \<and> won (gameResults s' (totalGames s')) = w
    \<and> difficulty (gameResults s' (totalGames s')) = d
    \<and> isDailyChallenge (gameResults s' (totalGames s')) = daily
    \<and> userGameIds s' (msg_sender e) = userGameIds s (msg_sender e) @ [totalGames s']"
proof -
  from assms have b: "recordGame_body e w d t daily s = (Inr evs, s')" by (simp add: recordGame_Inr)
  note f = recordGame_body_Inr [OF b]
  show ?thesis by (simp add: f(2,5,8,9) points_of_def)
qed

theorem recordGame_result_witness:
  "fst (recordGame (env_at 1 5000) False 0 999 False (run init_state two_players))
     = Inr [GameCompleted 1 2 False 0 999 0]
   \<and> totalGames (snd (recordGame (env_at 1 5000) False 0 999 False (run init_state two_players))) = 2
   \<and> timeSpent (gameResults
        (snd (recordGame (env_at 1 5000) False 0 999 False (run init_state two_players))) 2) = 0
   \<and> pointsEarned (gameResults
        (snd (recordGame (env_at 1 5000) False 0 999 False (run init_state two_players))) 2) = 0
   \<and> fst (recordGame (env_at 1 5000) True 2 30 True (run init_state two_players))
     = Inr [DailyChallengeCompleted 1 20240101 2 300, GameCompleted 1 2 True 2 30 300]
   \<and> timeSpent (gameResults
        (snd (recordGame (env_at 1 5000) True 2 30 True (run init_state two_players))) 2) = 30
   \<and> pointsEarned (gameResults
        (snd (recordGame (env_at 1 5000) True 2 30 True (run init_state two_players))) 2) = 300"
proof -
  have l: "recordGame (env_at 1 5000) False 0 999 False (run init_state two_players) =
      (Inr [GameCompleted 1 2 False 0 999 0],
       snd (recordGame (env_at 1 5000) False 0 999 False (run init_state two_players)))"
    by (simp add: exec_simps two_players_def)
  have lf: "fst (recordGame (env_at 1 5000) False 0 999 False (run init_state two_players)) =
      Inr [GameCompleted 1 2 False 0 999 0]"
    by (simp add: exec_simps two_players_def)
  have lt: "totalGames (snd (recordGame (env_at 1 5000) False 0 999 False
      (run init_state two_players))) = 2"
    by (simp add: exec_simps two_players_def)
  have w: "recordGame (env_at 1 5000) True 2 30 True (run init_state two_players) =
      (Inr [DailyChallengeCompleted 1 20240101 2 300, GameCompleted 1 2 True 2 30 300],
       snd (recordGame (env_at 1 5000) True 2 30 True (run init_state two_players)))"
    by (simp add: exec_simps two_players_def getCurrentDate_def)
  have wf: "fst (recordGame (env_at 1 5000) True 2 30 True (run init_state two_players)) =
      Inr [DailyChallengeCompleted 1 20240101 2 300, GameCompleted 1 2 True 2 30 300]"
    by (simp add: exec_simps two_players_def getCurrentDate_def)
  have wt: "totalGames (snd (recordGame (env_at 1 5000) True 2 30 True
      (run init_state two_players))) = 2"
    by (simp add: exec_simps two_players_def getCurrentDate_def)
  from recordGame_result [OF l] recordGame_result [OF w] lf lt wf wt show ?thesis
    by simp
qed

subsection \<open>C6: failed preconditions\<close>

text \<open>
  C6, as stated, asks for \<^verbatim>\<open>InvalidInput\<close> whenever the difficulty is above 2. The
  modifiers run in the order \<^verbatim>\<open>userExists\<close>, \<^verbatim>\<open>validDifficulty\<close>: a caller that is not
  registered gets \<open>User not registered\<close> whatever the difficulty.
\<close>

theorem recordGame_unregistered_bad_difficulty:
  "\<not> exists (users init_state (msg_sender (env_at 1 1000)))
   \<and> \<not> (3 :: uint8) \<le> 2
   \<and> recordGame (env_at 1 1000) False 3 0 False init_state
       = (Inl (Revert ''User not registered''), init_state)
   \<and> Revert ''User not registered'' \<noteq> Revert ''Invalid difficulty level''"
  by (simp add: exec_simps)

text \<open>
  C6, amended. In every state: \<^verbatim>\<open>recordGame\<close> fails with \<open>User not registered\<close>
  (\<^verbatim>\<open>UserNotFound\<close>) when the caller is not registered, and with
  \<open>Invalid difficulty level\<close> (\<^verbatim>\<open>InvalidInput\<close>) when the caller is registered and the
  difficulty is above 2; \<^verbatim>\<open>registerUser\<close> fails with \<open>Display name cannot be empty\<close> or
  \<open>Display name too long\<close> (\<^verbatim>\<open>InvalidInput\<close>) when the name is empty or longer than 50
  bytes. In each case the body stops with the storage it started from (nothing was
  written before the check), and the call returns the unchanged state.
\<close>

theorem precondition_failures:
  "(\<not> exists (users s (msg_sender e)) \<longrightarrow>
      recordGame_body e w d t daily s = (Inl (Revert ''User not registered''), s)
      \<and> recordGame e w d t daily s = (Inl (Revert ''User not registered''), s))
   \<and> (exists (users s (msg_sender e)) \<and> \<not> d \<le> 2 \<longrightarrow>
      recordGame_body e w d t daily s = (Inl (Revert ''Invalid difficulty level''), s)
      \<and> recordGame e w d t daily s = (Inl (Revert ''Invalid difficulty level''), s))
   \<and> (n = [] \<longrightarrow>
      registerUser_body e n s = (Inl (Revert ''Display name cannot be empty''), s)
      \<and> registerUser e n s = (Inl (Revert ''Display name cannot be empty''), s))
   \<and> (length n > 50 \<longrightarrow>
      registerUser_body e n s = (Inl (Revert ''Display name too long''), s)
      \<and> registerUser e n s = (Inl (Revert ''Display name too long''), s))"
  by (simp add: recordGame_def recordGame_body_def registerUser_def registerUser_body_def
      transact_def)

theorem precondition_failures_witness:
  "\<not> exists (users init_state (msg_sender (env_at 1 1000)))
   \<and> recordGame (env_at 1 1000) True 0 30 False init_state
       = (Inl (Revert ''User not registered''), init_state)
   \<and> exists (users (run init_state two_players) (msg_sender (env_at 1 5000)))
   \<and> \<not> (3 :: uint8) \<le> 2
   \<and> recordGame (env_at 1 5000) True 3 30 False (run init_state two_players)
       = (Inl (Revert ''Invalid difficulty level''), run init_state two_players)
   \<and> registerUser (env_at 3 5000) [] (run init_state two_players)
       = (Inl (Revert ''Display name cannot be empty''), run init_state two_players)
   \<and> length (replicate 51 CHR ''a'') > 50
   \<and> registerUser (env_at 3 5000) (replicate 51 CHR ''a'') (run init_state two_players)
       = (Inl (Revert ''Display name too long''), run init_state two_players)"
proof -
  have h1: "\<not> exists (users init_state (msg_sender (env_at 1 1000)))"
    by (simp add: exec_simps)
  have h2: "exists (users (run init_state two_players) (msg_sender (env_at 1 5000)))"
    by (simp add: exec_simps two_players_def)
  have h3: "\<not> (3 :: uint8) \<le> 2" by simp
  have h4: "length (replicate 51 CHR ''a'') > 50" by simp
  from precondition_failures [where s = init_state and e = "env_at 1 1000" and w = True and d = 0
      and t = 30 and daily = False] h1
  have a: "recordGame (env_at 1 1000) True 0 30 False init_state
       = (Inl (Revert ''User not registered''), init_state)" by blast
  from precondition_failures [where s = "run init_state two_players" and e = "env_at 1 5000"
      and w = True and d = 3 and t = 30 and daily = False] h2 h3
  have b: "recordGame (env_at 1 5000) True 3 30 False (run init_state two_players)
       = (Inl (Revert ''Invalid difficulty level''), run init_state two_players)" by blast
  from precondition_failures [where s = "run init_state two_players" and e = "env_at 3 5000"
      and n = "[]"]
  have c: "registerUser (env_at 3 5000) [] (run init_state two_players)
       = (Inl (Revert ''Display name cannot be empty''), run init_state two_players)" by blast
  from precondition_failures [where s = "run init_state two_players" and e = "env_at 3 5000"
      and n = "replicate 51 CHR ''a''"] h4
  have d: "registerUser (env_at 3 5000) (replicate 51 CHR ''a'') (run init_state two_players)
       = (Inl (Revert ''Display name too long''), run init_state two_players)" by blast
  from h1 h2 h3 h4 a b c d show ?thesis by blast
qed

subsection \<open>C2: the rank of a user\<close>

lemma getUserRank_loop_count:
  "unat rank + length (filter (\<lambda>a. a \<noteq> u \<and> up < totalPoints (users s a)) as) < 2 ^ 256 \<Longrightarrow>
   \<exists>r. getUserRank_loop s u up as rank = Inr r \<and>
       unat r = unat rank + length (filter (\<lambda>a. a \<noteq> u \<and> up < totalPoints (users s a)) as)"
proof (induction as arbitrary: rank)
  case Nil
  then show ?case by simp
next
  case (Cons a as)
  show ?case
  proof (cases "a \<noteq> u \<and> up < totalPoints (users s a)")
    case True
    with Cons.prems have b: "unat rank + unat (1 :: uint256) < 2 ^ 256" by simp
    then have c: "checked_add rank 1 = Some (rank + 1)" by (simp add: checked_add_Some)
    from b have d: "unat (rank + 1) = unat rank + 1" using unat_add_no_wrap [of rank 1] by simp
    from Cons.prems True d
    have "unat (rank + 1) + length (filter (\<lambda>a. a \<noteq> u \<and> up < totalPoints (users s a)) as) < 2 ^ 256"
      by simp
    from Cons.IH [OF this] True c d show ?thesis by auto
  next
    case False
    with Cons.prems
    have "unat rank + length (filter (\<lambda>a. a \<noteq> u \<and> up < totalPoints (users s a)) as) < 2 ^ 256"
      by auto
    from Cons.IH [OF this] False show ?thesis by auto
  qed
qed

lemma rank_count_card:
  assumes "inv_registry s"
  shows "length (filter (\<lambda>a. a \<noteq> u \<and> up < totalPoints (users s a)) (userAddresses s)) =
     card {b. b \<noteq> u \<and> exists (users s b) \<and> up < totalPoints (users s b)}"
proof -
  from assms have d: "distinct (userAddresses s)"
    and e: "set (userAddresses s) = {a. exists (users s a)}"
    by (simp_all add: inv_registry_def)
  have "{b. b \<noteq> u \<and> up < totalPoints (users s b)} \<inter> set (userAddresses s) =
      {b. b \<noteq> u \<and> exists (users s b) \<and> up < totalPoints (users s b)}"
    using e by auto
  with distinct_length_filter [OF d, of "\<lambda>a. a \<noteq> u \<and> up < totalPoints (users s a)"]
  show ?thesis by simp
qed

lemma rank_count_bound:
  assumes "inv_registry s" and "exists (users s u)"
  shows "1 + length (filter (\<lambda>a. a \<noteq> u \<and> up < totalPoints (users s a)) (userAddresses s)) < 2 ^ 256"
proof -
  from assms have "u \<in> set (userAddresses s)" by (simp add: inv_registry_def)
  then have "length (filter (\<lambda>a. a \<noteq> u \<and> up < totalPoints (users s a)) (userAddresses s))
      < length (userAddresses s)"
    by (rule length_filter_less) simp
  moreover from assms have "length (userAddresses s) = unat (totalUsers s)"
    by (simp add: inv_registry_def)
  moreover have "unat (totalUsers s) < 2 ^ 256" using unsigned_less [of "totalUsers s"] by simp
  ultimately show ?thesis by linarith
qed

lemma getUserRank_inv:
  assumes "inv_registry s"
  shows "\<exists>r. getUserRank s u = Inr r \<and>
     unat r = (if exists (users s u)
               then 1 + card {b. b \<noteq> u \<and> exists (users s b)
                                \<and> totalPoints (users s u) < totalPoints (users s b)}
               else 0)"
proof (cases "exists (users s u)")
  case False
  then show ?thesis by (simp add: getUserRank_def)
next
  case True
  from rank_count_bound [OF assms True, of "totalPoints (users s u)"]
  have "unat (1 :: uint256) + length (filter (\<lambda>a. a \<noteq> u \<and> totalPoints (users s u)
      < totalPoints (users s a)) (userAddresses s)) < 2 ^ 256" by simp
  from getUserRank_loop_count [OF this] True rank_count_card [OF assms] show ?thesis
    by (simp add: getUserRank_def)
qed

lemma getUserRank_ties:
  assumes "inv_registry s" and "exists (users s a)" and "exists (users s b)"
    and "totalPoints (users s a) = totalPoints (users s b)"
  shows "getUserRank s a = getUserRank s b"
proof -
  have eq: "{c. c \<noteq> a \<and> exists (users s c) \<and> totalPoints (users s a) < totalPoints (users s c)} =
        {c. c \<noteq> b \<and> exists (users s c) \<and> totalPoints (users s b) < totalPoints (users s c)}"
    using assms(4) by auto
  from getUserRank_inv [OF assms(1), of a] assms(2) obtain r where
    r: "getUserRank s a = Inr r"
       "unat r = 1 + card {c. c \<noteq> a \<and> exists (users s c)
                            \<and> totalPoints (users s a) < totalPoints (users s c)}"
    by auto
  from getUserRank_inv [OF assms(1), of b] assms(3) obtain r' where
    r': "getUserRank s b = Inr r'"
       "unat r' = 1 + card {c. c \<noteq> b \<and> exists (users s c)
                            \<and> totalPoints (users s b) < totalPoints (users s c)}"
    by auto
  from r(2) r'(2) eq have "unat r = unat r'" by simp
  then have "r = r'" by (simp add: word_unat_eq_iff)
  with r(1) r'(1) show ?thesis by simp
qed

text \<open>
  C2. In every state of the contract \<^verbatim>\<open>getUserRank\<close> returns without error: 0 for an
  identity that is not registered, and otherwise 1 plus the number of other registered
  identities that have strictly more points (the count fits into 256 bits, so the
  returned word is that number). Two registered identities with equal points get the
  same rank.
\<close>

theorem getUserRank_rank:
  "(\<exists>r. getUserRank (run init_state cs) a = Inr r \<and>
     unat r = (if exists (users (run init_state cs) a)
               then 1 + card {b. b \<noteq> a \<and> exists (users (run init_state cs) b)
                        \<and> totalPoints (users (run init_state cs) a)
                            < totalPoints (users (run init_state cs) b)}
               else 0))
   \<and> (exists (users (run init_state cs) a) \<and> exists (users (run init_state cs) b)
        \<and> totalPoints (users (run init_state cs) a) = totalPoints (users (run init_state cs) b)
      \<longrightarrow> getUserRank (run init_state cs) a = getUserRank (run init_state cs) b)"
proof (intro conjI impI)
  show "\<exists>r. getUserRank (run init_state cs) a = Inr r \<and>
     unat r = (if exists (users (run init_state cs) a)
               then 1 + card {b. b \<noteq> a \<and> exists (users (run init_state cs) b)
                        \<and> totalPoints (users (run init_state cs) a)
                            < totalPoints (users (run init_state cs) b)}
               else 0)"
    by (rule getUserRank_inv [OF inv_reachable])
next
  assume "exists (users (run init_state cs) a) \<and> exists (users (run init_state cs) b)
        \<and> totalPoints (users (run init_state cs) a) = totalPoints (users (run init_state cs) b)"
  then show "getUserRank (run init_state cs) a = getUserRank (run init_state cs) b"
    by (intro getUserRank_ties [OF inv_reachable]) simp_all
qed

theorem getUserRank_rank_witness:
  "exists (users (run init_state two_registered) 1)
   \<and> exists (users (run init_state two_registered) 2)
   \<and> totalPoints (users (run init_state two_registered) 1)
       = totalPoints (users (run init_state two_registered) 2)
   \<and> getUserRank (run init_state two_registered) 1 = getUserRank (run init_state two_registered) 2
   \<and> getUserRank (run init_state two_registered) 2 = Inr 1"
proof -
  have h: "exists (users (run init_state two_registered) 1)
      \<and> exists (users (run init_state two_registered) 2)
      \<and> totalPoints (users (run init_state two_registered) 1)
          = totalPoints (users (run init_state two_registered) 2)"
    by (simp add: exec_simps two_registered_def)
  have v: "getUserRank (run init_state two_registered) 2 = Inr 1"
    by (simp add: exec_simps two_registered_def getUserRank_def)
  from getUserRank_rank [of two_registered 1 2] h v show ?thesis by blast
qed

subsection \<open>C4: the date key\<close>

lemma fold_day:
  fixes y :: nat
  assumes "y < 365"
  shows "(if 360 \<le> y then y - 30 else y) = 30 * min 11 (y div 30) + y mod 30"
proof -
  define q r where "q = y div 30" and "r = y mod 30"
  have yqr: "y = 30 * q + r" and r: "r < 30" by (simp_all add: q_def r_def)
  from assms yqr have q: "q \<le> 12" by arith
  from yqr r have q12: "360 \<le> y \<longleftrightarrow> q = 12" using q by arith
  have "(if 360 \<le> y then y - 30 else y) = 30 * min 11 q + r"
    unfolding q12 using yqr q by (simp add: min_def)
  then show ?thesis by (simp add: q_def r_def)
qed

lemma date_nat:
  fixes y1 y2 :: nat
  assumes "y1 < 365" "y2 < 365"
  shows "(min 12 (y1 div 30 + 1) * 100 + (y1 mod 30 + 1) = min 12 (y2 div 30 + 1) * 100 + (y2 mod 30 + 1))
     \<longleftrightarrow> (if 360 \<le> y1 then y1 - 30 else y1) = (if 360 \<le> y2 then y2 - 30 else y2)"
proof -
  define m1 r1 m2 r2 where "m1 = min 11 (y1 div 30)" and "r1 = y1 mod 30"
    and "m2 = min 11 (y2 div 30)" and "r2 = y2 mod 30"
  have k1: "min 12 (y1 div 30 + 1) = m1 + 1" and k2: "min 12 (y2 div 30 + 1) = m2 + 1"
    by (simp_all add: m1_def m2_def min_def)
  have r: "r1 < 30" "r2 < 30" by (simp_all add: r1_def r2_def)
  have "((m1 + 1) * 100 + (r1 + 1) = (m2 + 1) * 100 + (r2 + 1)) \<longleftrightarrow> 30 * m1 + r1 = 30 * m2 + r2"
    using r by (cases m1 m2 rule: linorder_cases) auto
  then show ?thesis
    unfolding fold_day [OF assms(1)] fold_day [OF assms(2)] k1 k2
    by (simp add: m1_def m2_def r1_def r2_def)
qed

lemma small_unat: "n \<le> 30000000 \<Longrightarrow> unat (of_nat n :: uint256) = n"
  using of_nat_inverse [of n "of_nat n :: uint256"] by simp

lemma unat_getCurrentDate:
  "unat (getCurrentDate e) =
     20240000 + min 12 (unat (block_timestamp e) div 86400 mod 365 div 30 + 1) * 100
       + (unat (block_timestamp e) div 86400 mod 365 mod 30 + 1)"
proof -
  define y where "y = unat (block_timestamp e) div 86400 mod 365"
  define q r where "q = y div 30" and "r = y mod 30"
  have y: "y < 365" by (simp add: y_def)
  have q: "q \<le> 12" using y by (simp add: q_def)
  have r: "r < 30" by (simp add: r_def)
  have "unat (block_timestamp e div 86400 mod 365) = y"
    by (simp add: y_def unat_div unat_mod)
  then have doy: "block_timestamp e div 86400 mod 365 = (of_nat y :: uint256)"
    using y by (simp add: word_unat_eq_iff small_unat)
  have wq: "(of_nat y :: uint256) div 30 = of_nat q"
    using y q by (simp add: word_unat_eq_iff unat_div small_unat q_def)
  have wr: "(of_nat y :: uint256) mod 30 = of_nat r"
    using y r by (simp add: word_unat_eq_iff unat_mod small_unat r_def)
  have m: "(of_nat q + 1 :: uint256) = of_nat (q + 1)" by simp
  have d: "(of_nat r + 1 :: uint256) = of_nat (r + 1)" by simp
  have "unat (of_nat (q + 1) :: uint256) = q + 1" using q by (intro small_unat) simp
  then have mgt: "(12 :: uint256) < of_nat (q + 1) \<longleftrightarrow> 12 < q + 1"
    by (simp only: word_less_nat_alt) simp
  have "unat (of_nat (r + 1) :: uint256) = r + 1" using r by (intro small_unat) simp
  then have dgt: "\<not> (31 :: uint256) < of_nat (r + 1)"
    using r by (simp only: word_less_nat_alt) simp
  define N where "N = 20240000 + min 12 (q + 1) * 100 + (r + 1)"
  have "getCurrentDate e = of_nat (20240000 + min 12 (q + 1) * 100 + (r + 1))"
    unfolding getCurrentDate_def Let_def doy wq wr m d
    using mgt dgt by (simp add: min_def)
  then have "getCurrentDate e = of_nat N" by (simp only: N_def)
  moreover have "N \<le> 30000000"
    using q r by (simp add: N_def min_def)
  ultimately have "unat (getCurrentDate e) = N" by (simp only: small_unat)
  then show ?thesis by (simp only: N_def q_def r_def y_def)
qed

text \<open>
  C4, as stated, asks for distinct keys on distinct days. Days 330 and 360 after the
  epoch are distinct and both get the key 20241201: day 360 of the 365-day cycle would be
  in month 13, which the code clamps to 12.
\<close>

theorem getCurrentDate_collision:
  "unat (block_timestamp (env_at 1 28512000)) div 86400 = 330
   \<and> unat (block_timestamp (env_at 1 31104000)) div 86400 = 360
   \<and> unat (block_timestamp (env_at 1 28512000)) div 86400
       \<noteq> unat (block_timestamp (env_at 1 31104000)) div 86400
   \<and> getCurrentDate (env_at 1 28512000) = 20241201
   \<and> getCurrentDate (env_at 1 31104000) = 20241201"
  by (simp add: getCurrentDate_def env_at_def)

text \<open>
  C4, amended. The key depends only on the whole days elapsed since the epoch, so two
  timestamps of the same UTC day get the same key. Two timestamps get the same key
  exactly when their days agree modulo 365 after the last five days of the cycle
  (360 to 364) are folded onto days 330 to 334; all other pairs of days get distinct
  keys.
\<close>

theorem getCurrentDate_buckets:
  "(unat (block_timestamp e1) div 86400 = unat (block_timestamp e2) div 86400
      \<longrightarrow> getCurrentDate e1 = getCurrentDate e2)
   \<and> (getCurrentDate e1 = getCurrentDate e2 \<longleftrightarrow>
       (let y1 = unat (block_timestamp e1) div 86400 mod 365;
            y2 = unat (block_timestamp e2) div 86400 mod 365
        in (if 360 \<le> y1 then y1 - 30 else y1) = (if 360 \<le> y2 then y2 - 30 else y2)))"
proof -
  define y1 y2 where "y1 = unat (block_timestamp e1) div 86400 mod 365"
    and "y2 = unat (block_timestamp e2) div 86400 mod 365"
  have y: "y1 < 365" "y2 < 365" by (simp_all add: y1_def y2_def)
  have "getCurrentDate e1 = getCurrentDate e2 \<longleftrightarrow>
      unat (getCurrentDate e1) = unat (getCurrentDate e2)"
    by (rule word_unat_eq_iff)
  also have "\<dots> \<longleftrightarrow> min 12 (y1 div 30 + 1) * 100 + (y1 mod 30 + 1)
      = min 12 (y2 div 30 + 1) * 100 + (y2 mod 30 + 1)"
    unfolding unat_getCurrentDate y1_def y2_def by simp
  also have "\<dots> \<longleftrightarrow> (if 360 \<le> y1 then y1 - 30 else y1) = (if 360 \<le> y2 then y2 - 30 else y2)"
    by (rule date_nat [OF y])
  finally have main: "getCurrentDate e1 = getCurrentDate e2 \<longleftrightarrow>
      (if 360 \<le> y1 then y1 - 30 else y1) = (if 360 \<le> y2 then y2 - 30 else y2)" .
  have "unat (block_timestamp e1) div 86400 = unat (block_timestamp e2) div 86400
      \<Longrightarrow> getCurrentDate e1 = getCurrentDate e2"
    unfolding main by (simp add: y1_def y2_def)
  with main show ?thesis by (simp add: Let_def y1_def y2_def)
qed

theorem getCurrentDate_buckets_witness:
  "unat (block_timestamp (env_at 1 86400)) div 86400 = unat (block_timestamp (env_at 2 172799)) div 86400
   \<and> getCurrentDate (env_at 1 86400) = getCurrentDate (env_at 2 172799)
   \<and> getCurrentDate (env_at 1 86400) = 20240102
   \<and> getCurrentDate (env_at 1 172800) = 20240103"
proof -
  have h: "unat (block_timestamp (env_at 1 86400)) div 86400
      = unat (block_timestamp (env_at 2 172799)) div 86400"
    by (simp add: env_at_def)
  have v: "getCurrentDate (env_at 1 86400) = 20240102" "getCurrentDate (env_at 1 172800) = 20240103"
    by (simp_all add: getCurrentDate_def env_at_def)
  from getCurrentDate_buckets [of "env_at 1 86400" "env_at 2 172799"] h v show ?thesis
    by blast
qed

subsection \<open>C9: the best time only improves\<close>

lemma recordGame_bestTime:
  "bestTime (users (snd (recordGame e w d t daily s)) a) = bestTime (users s a)
   \<or> (w \<and> 0 < t \<and> a = msg_sender e
      \<and> bestTime (users (snd (recordGame e w d t daily s)) a) = t
      \<and> (bestTime (users s a) = 0 \<or> t < bestTime (users s a)))"
proof (cases "recordGame e w d t daily s")
  case (Pair r s')
  show ?thesis
  proof (cases r)
    case (Inl err)
    with Pair show ?thesis by (auto dest: recordGame_Inl)
  next
    case (Inr evs)
    with Pair have "recordGame_body e w d t daily s = (Inr evs, s')" by (simp add: recordGame_Inr)
    from recordGame_body_Inr(4) [OF this] Pair show ?thesis
      by (simp add: played_def)
  qed
qed

lemma apply_call_bestTime:
  assumes "is_RecordGame c" and "bestTime (users s a) \<noteq> 0"
  shows "bestTime (users (apply_call s c) a) \<noteq> 0
    \<and> bestTime (users (apply_call s c) a) \<le> bestTime (users s a)"
proof (cases c)
  case (Register e n)
  with assms show ?thesis by simp
next
  case (RecordGame e w d t daily)
  with recordGame_bestTime [of e w d t daily s a] assms(2) show ?thesis
    by (auto simp: word_gt_0)
qed

lemma run_bestTime:
  assumes "\<forall>c\<in>set cs. is_RecordGame c" and "bestTime (users s a) \<noteq> 0"
  shows "bestTime (users (run s cs) a) \<noteq> 0 \<and> bestTime (users (run s cs) a) \<le> bestTime (users s a)"
  using assms
proof (induction cs arbitrary: s)
  case Nil
  then show ?case by (simp add: run_def)
next
  case (Cons c cs)
  from Cons.prems have c: "is_RecordGame c" and cs: "\<forall>c\<in>set cs. is_RecordGame c" by simp_all
  from apply_call_bestTime [OF c Cons.prems(2)]
  have 1: "bestTime (users (apply_call s c) a) \<noteq> 0"
    and 2: "bestTime (users (apply_call s c) a) \<le> bestTime (users s a)" by simp_all
  from Cons.IH [OF cs 1] 2 show ?case by (auto simp: run_def)
qed

lemma run_no_time:
  assumes "\<forall>c\<in>set cs. no_time c"
  shows "bestTime (users (run s cs) a) = bestTime (users s a)"
  using assms
proof (induction cs arbitrary: s)
  case Nil
  then show ?case by (simp add: run_def)
next
  case (Cons c cs)
  from Cons.prems have c: "no_time c" and cs: "\<forall>c\<in>set cs. no_time c" by simp_all
  have "bestTime (users (apply_call s c) a) = bestTime (users s a)"
  proof (cases c)
    case (Register e n)
    with c show ?thesis by simp
  next
    case (RecordGame e w d t daily)
    with recordGame_bestTime [of e w d t daily s a] c show ?thesis by auto
  qed
  with Cons.IH [OF cs, of "apply_call s c"] show ?case by (simp add: run_def)
qed

text \<open>
  C9. For every identity and every state: a \<^verbatim>\<open>recordGame\<close> call with \<open>won = false\<close> or
  with \<open>timeSpent = 0\<close> leaves that identity's \<open>bestTime\<close> as it was, and so does every
  sequence of such calls; when \<open>bestTime\<close> is nonzero, a call that changes it makes it
  strictly smaller and leaves it nonzero; and over every sequence of \<^verbatim>\<open>recordGame\<close>
  calls a nonzero \<open>bestTime\<close> stays nonzero and never exceeds its earlier value.
\<close>

theorem bestTime_monotone:
  "(\<not> w \<or> t = 0 \<longrightarrow>
      bestTime (users (snd (recordGame e w d t daily s)) a) = bestTime (users s a))
   \<and> (bestTime (users s a) \<noteq> 0
       \<and> bestTime (users (snd (recordGame e w d t daily s)) a) \<noteq> bestTime (users s a) \<longrightarrow>
      bestTime (users (snd (recordGame e w d t daily s)) a) < bestTime (users s a)
      \<and> bestTime (users (snd (recordGame e w d t daily s)) a) \<noteq> 0)
   \<and> ((\<forall>c\<in>set cs. no_time c) \<longrightarrow> bestTime (users (run s cs) a) = bestTime (users s a))
   \<and> ((\<forall>c\<in>set cs. is_RecordGame c) \<and> bestTime (users s a) \<noteq> 0 \<longrightarrow>
      bestTime (users (run s cs) a) \<noteq> 0
      \<and> bestTime (users (run s cs) a) \<le> bestTime (users s a))"
proof (intro conjI impI)
  assume "\<not> w \<or> t = 0"
  with recordGame_bestTime [of e w d t daily s a]
  show "bestTime (users (snd (recordGame e w d t daily s)) a) = bestTime (users s a)" by auto
next
  assume h: "bestTime (users s a) \<noteq> 0
       \<and> bestTime (users (snd (recordGame e w d t daily s)) a) \<noteq> bestTime (users s a)"
  with recordGame_bestTime [of e w d t daily s a]
  show "bestTime (users (snd (recordGame e w d t daily s)) a) < bestTime (users s a)" by auto
  from h recordGame_bestTime [of e w d t daily s a]
  show "bestTime (users (snd (recordGame e w d t daily s)) a) \<noteq> 0" by (auto simp: word_gt_0)
next
  assume "\<forall>c\<in>set cs. no_time c"
  then show "bestTime (users (run s cs) a) = bestTime (users s a)" by (rule run_no_time)
next
  assume h: "(\<forall>c\<in>set cs. is_RecordGame c) \<and> bestTime (users s a) \<noteq> 0"
  then show "bestTime (users (run s cs) a) \<noteq> 0"
    and "bestTime (users (run s cs) a) \<le> bestTime (users s a)"
    using run_bestTime [of cs s a] by simp_all
qed

theorem bestTime_monotone_witness:
  "bestTime (users (run init_state two_players) 2) = 30
   \<and> bestTime (users (snd (recordGame (env_at 2 5000) False 0 999 False
        (run init_state two_players))) 2) = 30
   \<and> bestTime (users (snd (recordGame (env_at 2 5000) True 0 20 False
        (run init_state two_players))) 2) = 20
   \<and> bestTime (users (snd (recordGame (env_at 2 5000) True 0 20 False
        (run init_state two_players))) 2) < bestTime (users (run init_state two_players) 2)
   \<and> list_all no_time slow_games
   \<and> bestTime (users (run (run init_state two_players) slow_games) 2) = 30
   \<and> list_all is_RecordGame fast_games
   \<and> bestTime (users (run (run init_state two_players) fast_games) 2) = 20
   \<and> bestTime (users (run (run init_state two_players) fast_games) 2)
       \<le> bestTime (users (run init_state two_players) 2)"
proof -
  have b: "bestTime (users (run init_state two_players) 2) = 30"
    by (simp add: exec_simps two_players_def)
  have c: "bestTime (users (snd (recordGame (env_at 2 5000) True 0 20 False
        (run init_state two_players))) 2) = 20"
    by (simp add: exec_simps two_players_def)
  have f: "bestTime (users (run (run init_state two_players) fast_games) 2) = 20"
    by (simp add: exec_simps two_players_def fast_games_def)
  have n: "\<forall>c\<in>set slow_games. no_time c" by (simp add: slow_games_def)
  have r: "\<forall>c\<in>set fast_games. is_RecordGame c" by (simp add: fast_games_def)
  from bestTime_monotone [where s = "run init_state two_players" and a = 2 and w = False
      and t = 999 and e = "env_at 2 5000" and d = 0 and daily = False and cs = slow_games] b n
  have 1: "bestTime (users (snd (recordGame (env_at 2 5000) False 0 999 False
        (run init_state two_players))) 2) = 30"
    and 2: "bestTime (users (run (run init_state two_players) slow_games) 2) = 30"
    by simp_all
  from bestTime_monotone [where s = "run init_state two_players" and a = 2 and w = True
      and t = 20 and e = "env_at 2 5000" and d = 0 and daily = False and cs = fast_games] b c r
  have 3: "bestTime (users (snd (recordGame (env_at 2 5000) True 0 20 False
        (run init_state two_players))) 2) < bestTime (users (run init_state two_players) 2)"
    and 4: "bestTime (users (run (run init_state two_players) fast_games) 2)
       \<le> bestTime (users (run init_state two_players) 2)"
    by simp_all
  from b c f n r 1 2 3 4 show ?thesis by (simp add: list_all_iff)
qed

subsection \<open>C5: a page of the game history\<close>

lemma getUserGames_loop_map:
  assumes "offset \<le> i" and "i \<le> endi" and "endi \<le> length gameIds"
    and "length results = endi - offset"
  shows "getUserGames_loop s gameIds offset endi i results =
     Inr (take (i - offset) results @ map (\<lambda>k. gameResults s (gameIds ! k)) [i..<endi])"
  using assms
proof (induction s gameIds offset endi i results rule: getUserGames_loop.induct)
  case (1 s gameIds offset endi i results)
  show ?case
  proof (cases "i < endi")
    case False
    with "1.prems" show ?thesis by (simp add: getUserGames_loop.simps)
  next
    case True
    with "1.prems" have inb: "\<not> \<not> i < length gameIds" "\<not> \<not> offset \<le> i"
      "\<not> \<not> i - offset < length results"
      by auto
    let ?res = "results[i - offset := gameResults s (gameIds ! i)]"
    from True "1.prems" have p: "offset \<le> Suc i" "Suc i \<le> endi" "length ?res = endi - offset"
      by auto
    have "getUserGames_loop s gameIds offset endi i results =
        getUserGames_loop s gameIds offset endi (Suc i) ?res"
      using True inb by (subst getUserGames_loop.simps) simp
    also have "\<dots> = Inr (take (Suc i - offset) ?res
        @ map (\<lambda>k. gameResults s (gameIds ! k)) [Suc i..<endi])"
      using "1.IH" [OF True inb p(1,2) "1.prems"(3) p(3)] .
    also have "take (Suc i - offset) ?res = take (i - offset) results @ [gameResults s (gameIds ! i)]"
    proof -
      from inb have "Suc i - offset = Suc (i - offset)" by auto
      then show ?thesis using inb by (simp add: take_Suc_conv_app_nth)
    qed
    finally show ?thesis using True by (simp add: upt_conv_Cons)
  qed
qed

lemma map_nth_upt_slice:
  assumes "j \<le> length xs"
  shows "map ((!) xs) [i..<j] = drop i (take j xs)"
  using assms by (intro nth_equalityI) auto

lemma unat_max_uint256: "unat (- 1 :: uint256) = 2 ^ 256 - 1"
  by (simp add: unsigned_minus_1_eq_mask mask_eq_exp_minus_1)

lemma getUserGames_spec:
  "getUserGames s u offset limit =
     (if length (userGameIds s u) \<le> unat offset then Inl (Revert ''Offset out of bounds'')
      else if 2 ^ 256 \<le> unat offset + unat limit then Inl Panic_overflow
      else Inr (map (gameResults s) (take (unat limit) (drop (unat offset) (userGameIds s u)))))"
proof (cases "unat offset < length (userGameIds s u)")
  case False
  then show ?thesis by (simp add: getUserGames_def)
next
  case off: True
  show ?thesis
  proof (cases "unat offset + unat limit < 2 ^ 256")
    case False
    with off show ?thesis by (simp add: getUserGames_def checked_add_def)
  next
    case True
    define ids where "ids = userGameIds s u"
    define endi where "endi = (if unat (offset + limit) > length ids then length ids
                               else unat (offset + limit))"
    have e: "unat (offset + limit) = unat offset + unat limit"
      using True by (rule unat_add_no_wrap)
    from off have b: "unat offset \<le> endi" "endi \<le> length ids"
      by (auto simp: endi_def e ids_def)
    have "getUserGames s u offset limit =
        getUserGames_loop s ids (unat offset) endi (unat offset)
          (replicate (endi - unat offset) zero_GameResult)"
    proof -
      from b(1) have "\<not> endi < unat offset" by simp
      then show ?thesis
        using off True
        by (simp add: getUserGames_def checked_add_def ids_def endi_def Let_def
            split: if_splits)
    qed
    also have "\<dots> = Inr (map (\<lambda>k. gameResults s (ids ! k)) [unat offset..<endi])"
      using b by (subst getUserGames_loop_map) simp_all
    also have "map (\<lambda>k. gameResults s (ids ! k)) [unat offset..<endi] =
        map (gameResults s) (map ((!) ids) [unat offset..<endi])" by simp
    also have "map ((!) ids) [unat offset..<endi] = drop (unat offset) (take endi ids)"
      using b(2) by (rule map_nth_upt_slice)
    also have "\<dots> = take (unat limit) (drop (unat offset) ids)"
      using off by (auto simp: drop_take endi_def e ids_def)
    finally show ?thesis using off True by (simp add: ids_def)
  qed
qed

text \<open>
  C5 says that \<^verbatim>\<open>getUserGames\<close> fails only when the offset is not below the length of
  the identity's list of game ids, and otherwise returns the page without error, clipped
  to the length, also when offset plus limit exceeds the length. The code computes
  \<^verbatim>\<open>_offset + _limit\<close> with checked addition before it clips the end of the page to
  the length of the list. After \<open>two_games\<close> identity 1 has two recorded games;
  with offset 1, which is in range, and the largest limit a \<^verbatim>\<open>uint256\<close> can hold, the sum
  does not fit into 256 bits and the call panics instead of returning the second game. By
  \<open>getUserGames_spec\<close> the page is returned, clipped, exactly when the offset is in range
  and the sum fits.
\<close>

theorem getUserGames_huge_limit:
  "userGameIds (run init_state two_games) 1 = [1, 2]
   \<and> unat (1 :: uint256) < length (userGameIds (run init_state two_games) 1)
   \<and> getUserGames (run init_state two_games) 1 1 (- 1) = Inl Panic_overflow"
proof -
  have ids: "userGameIds (run init_state two_games) 1 = [1, 2]"
    by (simp add: exec_simps two_games_def getCurrentDate_def)
  have "checked_add 1 (- 1) = None"
    by (simp add: checked_add_None unat_max_uint256)
  with ids show ?thesis by (simp add: getUserGames_def)
qed

subsection \<open>C1: the leaderboard\<close>

lemma replicate_numeral: "replicate (numeral k) x = x # replicate (pred_numeral k) x"
  by (simp add: numeral_eq_Suc)

lemma leaderboard_shift_effect:
  assumes "j < len" and "length tu = len" and "length tp = len"
  shows "\<exists>k tu' tp'. leaderboard_shift cp len j tu tp = Inr (k, tu', tp')
     \<and> k \<le> j \<and> length tu' = len \<and> length tp' = len
     \<and> (\<forall>m<len. tp' ! m = (if k < m \<and> m \<le> j then tp ! (m - 1) else tp ! m))
     \<and> (\<forall>m<len. tu' ! m = (if k < m \<and> m \<le> j then tu ! (m - 1) else tu ! m))
     \<and> (\<forall>m. k \<le> m \<and> m < j \<longrightarrow> tp ! m < cp)
     \<and> (k = 0 \<or> \<not> tp ! (k - 1) < cp)"
  using assms
proof (induction cp len j tu tp rule: leaderboard_shift.induct)
  case (1 cp len j tu tp)
  show ?case
  proof (cases "j > 0 \<and> tp ! (j - 1) < cp")
    case False
    with "1.prems" have "leaderboard_shift cp len j tu tp = Inr (j, tu, tp)"
      by (subst leaderboard_shift.simps) auto
    with False "1.prems" show ?thesis by auto
  next
    case True
    let ?tu = "tu[j := tu ! (j - 1)]" and ?tp = "tp[j := tp ! (j - 1)]"
    from True "1.prems" have step: "leaderboard_shift cp len j tu tp =
        leaderboard_shift cp len (j - 1) ?tu ?tp"
      by (subst leaderboard_shift.simps) auto
    from True "1.prems" have a: "0 < j" "\<not> \<not> j - 1 < length tp" "tp ! (j - 1) < cp" "j < len"
      by auto
    from "1.prems" True have p: "j - 1 < len" "length ?tu = len" "length ?tp = len" by auto
    from "1.IH"(1) [OF a p] obtain k tu' tp' where
      r: "leaderboard_shift cp len (j - 1) ?tu ?tp = Inr (k, tu', tp')"
      and k: "k \<le> j - 1" and l: "length tu' = len" "length tp' = len"
      and tp': "\<forall>m<len. tp' ! m = (if k < m \<and> m \<le> j - 1 then ?tp ! (m - 1) else ?tp ! m)"
      and tu': "\<forall>m<len. tu' ! m = (if k < m \<and> m \<le> j - 1 then ?tu ! (m - 1) else ?tu ! m)"
      and lt: "\<forall>m. k \<le> m \<and> m < j - 1 \<longrightarrow> ?tp ! m < cp"
      and stop: "k = 0 \<or> \<not> ?tp ! (k - 1) < cp"
      by blast
    have 1: "\<forall>m<len. tp' ! m = (if k < m \<and> m \<le> j then tp ! (m - 1) else tp ! m)"
    proof (intro allI impI)
      fix m assume m: "m < len"
      with tp' have e: "tp' ! m = (if k < m \<and> m \<le> j - 1 then ?tp ! (m - 1) else ?tp ! m)" by simp
      show "tp' ! m = (if k < m \<and> m \<le> j then tp ! (m - 1) else tp ! m)"
        using e k m True "1.prems" by (cases "m = j") auto
    qed
    have 2: "\<forall>m<len. tu' ! m = (if k < m \<and> m \<le> j then tu ! (m - 1) else tu ! m)"
    proof (intro allI impI)
      fix m assume m: "m < len"
      with tu' have e: "tu' ! m = (if k < m \<and> m \<le> j - 1 then ?tu ! (m - 1) else ?tu ! m)" by simp
      show "tu' ! m = (if k < m \<and> m \<le> j then tu ! (m - 1) else tu ! m)"
        using e k m True "1.prems" by (cases "m = j") auto
    qed
    have 3: "\<forall>m. k \<le> m \<and> m < j \<longrightarrow> tp ! m < cp"
    proof (intro allI impI)
      fix m assume m: "k \<le> m \<and> m < j"
      show "tp ! m < cp"
      proof (cases "m = j - 1")
        case True
        with a show ?thesis by simp
      next
        case False
        with m have "m < j - 1" by auto
        with lt m have "?tp ! m < cp" by blast
        with m show ?thesis by simp
      qed
    qed
    have 4: "k = 0 \<or> \<not> tp ! (k - 1) < cp"
      using stop k True by (cases "k = 0") auto
    from step r k l 1 2 3 4 show ?thesis by auto
  qed
qed

lemma set_insert_desc: "set (insert_desc x xs) = insert x (set xs)"
  by (induction xs) auto

lemma length_insert_desc: "length (insert_desc x xs) = Suc (length xs)"
  by (induction xs) auto

lemma mset_insert_desc: "mset (insert_desc x xs) = add_mset x (mset xs)"
  by (induction xs) auto

lemma sorted_insert_desc:
  "sorted_wrt (\<lambda>a b. snd b \<le> snd a) xs \<Longrightarrow> sorted_wrt (\<lambda>a b. snd b \<le> snd a) (insert_desc x xs)"
  by (induction xs) (auto simp: set_insert_desc)

lemma filter_insert_desc:
  "sorted_wrt (\<lambda>a b. snd b \<le> snd a) xs \<Longrightarrow>
   filter (\<lambda>y. snd y = p) (insert_desc x xs) =
     (if snd x = p then filter (\<lambda>y. snd y = p) xs @ [x] else filter (\<lambda>y. snd y = p) xs)"
proof (induction xs)
  case Nil
  then show ?case by simp
next
  case (Cons y ys)
  show ?case
  proof (cases "snd y < snd x")
    case True
    from Cons.prems have "\<forall>z\<in>set (y # ys). snd z \<le> snd y" by auto
    with True have "\<forall>z\<in>set (y # ys). snd z \<noteq> snd x" by auto
    then have "filter (\<lambda>z. snd z = snd x) (y # ys) = []" by (simp add: filter_empty_conv)
    with True show ?thesis by auto
  next
    case False
    with Cons show ?thesis by auto
  qed
qed

lemma insert_desc_head: "zs = [] \<or> snd (hd zs) < snd x \<Longrightarrow> insert_desc x zs = x # zs"
  by (cases zs) auto

lemma insert_desc_pos:
  assumes "\<forall>y\<in>set ys. \<not> snd y < snd x" and "zs = [] \<or> snd (hd zs) < snd x"
  shows "insert_desc x (ys @ zs) = ys @ x # zs"
  using assms by (induction ys) (simp_all add: insert_desc_head)

lemma sort_desc_snoc: "sort_desc (xs @ [x]) = insert_desc x (sort_desc xs)"
  by (simp add: sort_desc_def)

lemma length_sort_desc: "length (sort_desc xs) = length xs"
  by (induction xs rule: rev_induct) (simp_all add: sort_desc_snoc length_insert_desc, simp add: sort_desc_def)

lemma mset_sort_desc: "mset (sort_desc xs) = mset xs"
  by (induction xs rule: rev_induct) (simp_all add: sort_desc_snoc mset_insert_desc, simp add: sort_desc_def)

lemma sorted_sort_desc: "sorted_wrt (\<lambda>a b. snd b \<le> snd a) (sort_desc xs)"
  by (induction xs rule: rev_induct) (simp_all add: sort_desc_snoc sorted_insert_desc, simp add: sort_desc_def)

lemma stable_sort_desc:
  "filter (\<lambda>y. snd y = p) (sort_desc xs) = filter (\<lambda>y. snd y = p) xs"
proof (induction xs rule: rev_induct)
  case Nil
  then show ?case by (simp add: sort_desc_def)
next
  case (snoc x xs)
  then show ?case
    by (simp add: sort_desc_snoc filter_insert_desc [OF sorted_sort_desc])
qed

lemma leaderboard_step:
  assumes i: "i < len" and l: "length tu = len" "length tp = len"
    and sorted: "sorted_wrt (\<lambda>a b. snd b \<le> snd a) (zip (take i tu) (take i tp))"
  shows "\<exists>k tu' tp'. leaderboard_shift cp len i tu tp = Inr (k, tu', tp')
     \<and> k < len \<and> length tu' = len \<and> length tp' = len
     \<and> zip (take (Suc i) (tu'[k := a])) (take (Suc i) (tp'[k := cp])) =
         insert_desc (a, cp) (zip (take i tu) (take i tp))"
proof -
  from leaderboard_shift_effect [OF i l, of cp] obtain k tu' tp' where
    r: "leaderboard_shift cp len i tu tp = Inr (k, tu', tp')"
    and k: "k \<le> i" and l': "length tu' = len" "length tp' = len"
    and tp': "\<forall>m<len. tp' ! m = (if k < m \<and> m \<le> i then tp ! (m - 1) else tp ! m)"
    and tu': "\<forall>m<len. tu' ! m = (if k < m \<and> m \<le> i then tu ! (m - 1) else tu ! m)"
    and lt: "\<forall>m. k \<le> m \<and> m < i \<longrightarrow> tp ! m < cp"
    and stop: "k = 0 \<or> \<not> tp ! (k - 1) < cp"
    by blast
  define Z where "Z = zip (take i tu) (take i tp)"
  have lZ: "length Z = i" using i l by (simp add: Z_def)
  have nZ: "Z ! m = (tu ! m, tp ! m)" if "m < i" for m
    using that i l by (simp add: Z_def)
  have before: "\<forall>y\<in>set (take k Z). \<not> snd y < snd (a, cp)"
  proof
    fix y assume "y \<in> set (take k Z)"
    then obtain m where m: "m < k" "y = Z ! m"
      using k lZ by (auto simp: in_set_conv_nth)
    with stop have s: "\<not> tp ! (k - 1) < cp" by auto
    from m k have y: "snd y = tp ! m" by (simp add: nZ)
    have "snd (Z ! (k - 1)) \<le> snd (Z ! m)"
    proof (cases "m = k - 1")
      case True
      then show ?thesis by simp
    next
      case False
      with m have "m < k - 1" by auto
      moreover from m k lZ have "k - 1 < length Z" by auto
      ultimately show ?thesis
        using sorted unfolding Z_def [symmetric] by (simp add: sorted_wrt_iff_nth_less)
    qed
    with m k y have "tp ! (k - 1) \<le> tp ! m" by (simp add: nZ)
    with s y show "\<not> snd y < snd (a, cp)" by auto
  qed
  have after: "drop k Z = [] \<or> snd (hd (drop k Z)) < snd (a, cp)"
  proof (cases "k < i")
    case False
    with lZ show ?thesis by simp
  next
    case True
    with lZ have "hd (drop k Z) = Z ! k" by (simp add: hd_drop_conv_nth)
    with True lt show ?thesis by (simp add: nZ)
  qed
  have "insert_desc (a, cp) Z = insert_desc (a, cp) (take k Z @ drop k Z)" by simp
  also have "\<dots> = take k Z @ (a, cp) # drop k Z"
    using before after by (rule insert_desc_pos)
  finally have ins: "insert_desc (a, cp) Z = take k Z @ (a, cp) # drop k Z" .
  have "zip (take (Suc i) (tu'[k := a])) (take (Suc i) (tp'[k := cp])) =
      take k Z @ (a, cp) # drop k Z"
  proof (rule nth_equalityI)
    show "length (zip (take (Suc i) (tu'[k := a])) (take (Suc i) (tp'[k := cp]))) =
        length (take k Z @ (a, cp) # drop k Z)"
      using i l' lZ k by simp
  next
    fix m assume "m < length (zip (take (Suc i) (tu'[k := a])) (take (Suc i) (tp'[k := cp])))"
    with i l' have m: "m < Suc i" by simp
    with i have ml: "m < len" by simp
    consider "m < k" | "m = k" | "k < m"
      by (cases m k rule: linorder_cases) auto
    then show "zip (take (Suc i) (tu'[k := a])) (take (Suc i) (tp'[k := cp])) ! m =
        (take k Z @ (a, cp) # drop k Z) ! m"
    proof cases
      case 1
      with m ml k i l' lZ tp' tu' show ?thesis
        by (simp add: nth_append nZ)
    next
      case 2
      with m ml k i l' lZ show ?thesis
        by (simp add: nth_append)
    next
      case 3
      with m have "m - 1 < i" by auto
      with 3 m ml k i l' lZ tp' tu' show ?thesis
        by (simp add: nth_append nZ nth_Cons')
    qed
  qed
  with ins r k i l' show ?thesis by (auto simp: Z_def)
qed

lemma leaderboard_loop_sorts:
  assumes "len = min (length (userAddresses s)) L" and "i \<le> len"
    and "length tu = len" and "length tp = len"
    and "zip (take i tu) (take i tp) =
         sort_desc (map (\<lambda>a. (a, totalPoints (users s a))) (take i (userAddresses s)))"
  shows "\<exists>tu' tp'. leaderboard_loop s L len i tu tp = Inr (tu', tp')
     \<and> length tu' = len \<and> length tp' = len
     \<and> zip tu' tp' =
         sort_desc (map (\<lambda>a. (a, totalPoints (users s a))) (take len (userAddresses s)))"
  using assms
proof (induction "len - i" arbitrary: i tu tp)
  case 0
  from "0.hyps" "0.prems"(2) have i: "i = len" by linarith
  with "0.prems" have "(i < length (userAddresses s) \<and> i < L) = False" by auto
  then have "leaderboard_loop s L len i tu tp = Inr (tu, tp)"
    by (subst leaderboard_loop.simps) (simp only: if_False)
  with "0.prems" i show ?case by simp
next
  case (Suc n)
  from Suc.hyps(2) have i: "i < len" by linarith
  with Suc.prems(1) have c: "i < length (userAddresses s) \<and> i < L" by simp
  define a where "a = userAddresses s ! i"
  define cp where "cp = totalPoints (users s a)"
  have sorted: "sorted_wrt (\<lambda>a b. snd b \<le> snd a) (zip (take i tu) (take i tp))"
    unfolding Suc.prems(5) by (rule sorted_sort_desc)
  from leaderboard_step [OF i Suc.prems(3,4) sorted, of cp a] obtain k tu' tp' where
    r: "leaderboard_shift cp len i tu tp = Inr (k, tu', tp')"
    and k: "k < len" and l: "length tu' = len" "length tp' = len"
    and z: "zip (take (Suc i) (tu'[k := a])) (take (Suc i) (tp'[k := cp])) =
         insert_desc (a, cp) (zip (take i tu) (take i tp))"
    by blast
  have step: "leaderboard_loop s L len i tu tp =
      leaderboard_loop s L len (Suc i) (tu'[k := a]) (tp'[k := cp])"
    using c r k by (subst leaderboard_loop.simps) (simp add: a_def cp_def Let_def)
  have "take (Suc i) (userAddresses s) = take i (userAddresses s) @ [a]"
    using c by (simp add: take_Suc_conv_app_nth a_def)
  then have inv: "zip (take (Suc i) (tu'[k := a])) (take (Suc i) (tp'[k := cp])) =
      sort_desc (map (\<lambda>a. (a, totalPoints (users s a))) (take (Suc i) (userAddresses s)))"
    using z Suc.prems(5) by (simp add: sort_desc_snoc cp_def)
  from Suc.hyps(2) have n: "n = len - Suc i" by simp
  from i have i': "Suc i \<le> len" by simp
  from l have l': "length (tu'[k := a]) = len" "length (tp'[k := cp]) = len" by simp_all
  from Suc.hyps(1) [OF n Suc.prems(1) i' l' inv] step show ?case by simp
qed

lemma getLeaderboard_sorts_prefix:
  assumes "inv_registry s" and "0 < limit" and "limit \<le> 100"
  shows "\<exists>r. getLeaderboard s limit = Inr (map fst r, map snd r)
     \<and> r = sort_desc (map (\<lambda>a. (a, totalPoints (users s a)))
              (take (unat limit) (userAddresses s)))"
proof -
  define len where "len = unat (if totalUsers s < limit then totalUsers s else limit)"
  from assms(1) have n: "length (userAddresses s) = unat (totalUsers s)"
    by (simp add: inv_registry_def)
  have len: "len = min (length (userAddresses s)) (unat limit)"
    by (auto simp: len_def n word_less_nat_alt)
  have init: "zip (take 0 (replicate len (0 :: address))) (take 0 (replicate len (0 :: uint256))) =
      sort_desc (map (\<lambda>a. (a, totalPoints (users s a))) (take 0 (userAddresses s)))"
    by (simp add: sort_desc_def)
  from leaderboard_loop_sorts [OF len _ _ _ init] obtain tu' tp' where
    r: "leaderboard_loop s (unat limit) len 0 (replicate len 0) (replicate len 0) = Inr (tu', tp')"
    and l: "length tu' = len" "length tp' = len"
    and z: "zip tu' tp' =
         sort_desc (map (\<lambda>a. (a, totalPoints (users s a))) (take len (userAddresses s)))"
    by auto
  have t: "take len (userAddresses s) = take (unat limit) (userAddresses s)"
    by (simp add: len min_def)
  from l have "tu' = map fst (zip tu' tp')" "tp' = map snd (zip tu' tp')" by simp_all
  with r z t assms(2,3) show ?thesis
    by (simp add: getLeaderboard_def len_def Let_def)
qed

text \<open>
  What \<^verbatim>\<open>getLeaderboard\<close> does return, in every state of the contract: the first
  \<^verbatim>\<open>_limit\<close> identities in registration order with their points, rearranged so that
  points descend and ties keep their registration order.
\<close>

lemma getLeaderboard_prefix:
  assumes "0 < limit" and "limit \<le> 100"
  shows "\<exists>r. getLeaderboard (run init_state cs) limit = Inr (map fst r, map snd r)
     \<and> length r = min (unat limit) (unat (totalUsers (run init_state cs)))
     \<and> mset r = mset (map (\<lambda>a. (a, totalPoints (users (run init_state cs) a)))
                   (take (unat limit) (userAddresses (run init_state cs))))
     \<and> sorted_wrt (\<lambda>x y. snd y \<le> snd x) r
     \<and> (\<forall>p. filter (\<lambda>x. snd x = p) r =
              filter (\<lambda>x. snd x = p) (map (\<lambda>a. (a, totalPoints (users (run init_state cs) a)))
                   (take (unat limit) (userAddresses (run init_state cs)))))"
proof -
  define s where "s = run init_state cs"
  have inv: "inv_registry s" unfolding s_def by (rule inv_reachable)
  then have n: "length (userAddresses s) = unat (totalUsers s)" by (simp add: inv_registry_def)
  define r where "r = sort_desc (map (\<lambda>a. (a, totalPoints (users s a)))
      (take (unat limit) (userAddresses s)))"
  from getLeaderboard_sorts_prefix [OF inv assms]
  have 1: "getLeaderboard s limit = Inr (map fst r, map snd r)" by (simp add: r_def)
  have 2: "length r = min (unat limit) (unat (totalUsers s))"
    by (simp add: r_def length_sort_desc n)
  have 3: "mset r = mset (map (\<lambda>a. (a, totalPoints (users s a)))
      (take (unat limit) (userAddresses s)))"
    unfolding r_def by (rule mset_sort_desc)
  have 4: "sorted_wrt (\<lambda>x y. snd y \<le> snd x) r"
    unfolding r_def by (rule sorted_sort_desc)
  have 5: "\<forall>p. filter (\<lambda>x. snd x = p) r =
      filter (\<lambda>x. snd x = p) (map (\<lambda>a. (a, totalPoints (users s a)))
        (take (unat limit) (userAddresses s)))"
    unfolding r_def by (simp add: stable_sort_desc)
  from 1 2 3 4 5 show ?thesis unfolding s_def by blast
qed

text \<open>
  C1 says that \<^verbatim>\<open>getLeaderboard\<close> returns the top \<open>min limit totalUsers\<close> identities of
  the whole registry. The outer loop stops at \<^verbatim>\<open>i < _limit\<close>: it sorts the first
  \<^verbatim>\<open>_limit\<close> identities in registration order and never looks at the others. After
  \<open>two_players\<close> identity 1, registered first, has 0 points and identity 2 has 50; the
  leaderboard of length 1 is identity 1 with 0 points, not the top identity of the
  registry, although \<^verbatim>\<open>getUserRank\<close> ranks identity 2 first and identity 1 second. With
  limit 2 both are scanned and come out in descending order.
\<close>

theorem getLeaderboard_prefix_only:
  "totalPoints (users (run init_state two_players) 1) = 0
   \<and> totalPoints (users (run init_state two_players) 2) = 50
   \<and> userAddresses (run init_state two_players) = [1, 2]
   \<and> totalUsers (run init_state two_players) = 2
   \<and> getLeaderboard (run init_state two_players) 1 = Inr ([1], [0])
   \<and> getLeaderboard (run init_state two_players) 2 = Inr ([2, 1], [50, 0])
   \<and> getUserRank (run init_state two_players) 1 = Inr 2
   \<and> getUserRank (run init_state two_players) 2 = Inr 1"
  by (simp add: exec_simps two_players_def getLeaderboard_def leaderboard_loop.simps
      leaderboard_shift.simps replicate_numeral getUserRank_def)

end
